theory Spec2Isabelle
  imports Complex_Main
begin

section \<open>Data model\<close>

text \<open>
  The program under study is \<^verbatim>\<open>scope_capture.py\<close>, a capture script for a Siglent
  oscilloscope. Its decode pipeline is embedded here function by function.

  \<^item> A Python \<^verbatim>\<open>bytes\<close> object is a list of bytes. A HOL \<^typ>\<open>char\<close> is exactly one
    byte (256 values), and \<^term>\<open>of_char b :: int\<close> is the integer in \<open>0..255\<close> that
    Python yields when it iterates over the buffer.
  \<^item> A Python \<^verbatim>\<open>str\<close> is a \<^typ>\<open>string\<close>; the SCPI responses are ASCII, and the
    model covers the code points below 256.
  \<^item> A Python \<^verbatim>\<open>int\<close> is an \<^typ>\<open>int\<close>, a length or a count is a \<^typ>\<open>nat\<close>.
  \<^item> A Python \<^verbatim>\<open>float\<close> is modelled by the \<^typ>\<open>real\<close> number it stands for:
    arithmetic is exact, so rounding and overflow are outside the model. The infinities
    and the NaN that \<^verbatim>\<open>float(...)\<close> builds from the literals \<^verbatim>\<open>inf\<close> and
    \<^verbatim>\<open>nan\<close> are values of the parser's result type.
  \<^item> Every \<^verbatim>\<open>raise\<close> of the source is a value \<open>Inl e\<close> of the sum type
    \<open>error + 'a\<close>.
\<close>

type_synonym byte = char
type_synonym bytes = "char list"

definition byte :: "nat \<Rightarrow> byte" where
  "byte n = char_of n"

datatype error =
    HeaderNotFound        \<comment> \<open>\<^verbatim>\<open>ValueError("Could not find data block header ...")\<close>\<close>
  | InvalidIntLiteral     \<comment> \<open>\<^verbatim>\<open>ValueError\<close> raised by \<^verbatim>\<open>int(...)\<close>\<close>
  | InvalidFloatLiteral   \<comment> \<open>\<^verbatim>\<open>ValueError\<close> raised by \<^verbatim>\<open>float(...)\<close>\<close>
  | ZeroDivisionError     \<comment> \<open>\<^verbatim>\<open>1.0 / sara\<close> with \<^verbatim>\<open>sara == 0\<close>\<close>
  | NoWaveformData        \<comment> \<open>\<^verbatim>\<open>sys.exit(1)\<close> when no channel was captured\<close>

section \<open>Waveform decoding (\<^verbatim>\<open>capture_channel\<close>, lines 189 to 196)\<close>

text \<open>
  \<^verbatim>\<open>code = b - 255 if b > 127 else b\<close>
\<close>

definition sample_code :: "byte \<Rightarrow> int" where
  "sample_code b = (if (of_char b :: int) > 127 then of_char b - 255 else of_char b)"

definition code_per_div :: real where
  "code_per_div = 25"

definition sample_voltage :: "real \<Rightarrow> real \<Rightarrow> byte \<Rightarrow> real" where
  "sample_voltage vdiv ofst b = (real_of_int (sample_code b) / code_per_div) * vdiv - ofst"

text \<open>
  The loop \<^verbatim>\<open>for b in wave_bytes: ... voltages.append(voltage)\<close>, with the list built
  so far as an accumulator.
\<close>

fun decode_loop :: "real \<Rightarrow> real \<Rightarrow> real list \<Rightarrow> bytes \<Rightarrow> real list" where
  "decode_loop vdiv ofst voltages [] = voltages"
| "decode_loop vdiv ofst voltages (b # bs) =
     decode_loop vdiv ofst (voltages @ [sample_voltage vdiv ofst b]) bs"

definition decode_waveform :: "bytes \<Rightarrow> real \<Rightarrow> real \<Rightarrow> real list" where
  "decode_waveform wave_bytes vdiv ofst = decode_loop vdiv ofst [] wave_bytes"

section \<open>Python built-ins used by the block extractor\<close>

text \<open>
  \<^verbatim>\<open>raw.find(sub)\<close>: the lowest index at which \<open>sub\<close> occurs in \<open>raw\<close>, or \<open>-1\<close>.
  The second argument counts the bytes already passed.
\<close>

fun find_from :: "bytes \<Rightarrow> nat \<Rightarrow> bytes \<Rightarrow> int" where
  "find_from sub i [] = (if sub = [] then int i else - 1)"
| "find_from sub i (x # xs) =
     (if take (length sub) (x # xs) = sub then int i else find_from sub (Suc i) xs)"

definition py_find :: "bytes \<Rightarrow> bytes \<Rightarrow> int" where
  "py_find raw sub = find_from sub 0 raw"

text \<open>
  \<^verbatim>\<open>xs[a:b]\<close> for integers \<open>a\<close> and \<open>b\<close>: a negative bound counts from the end of the
  list, every bound is clamped to \<open>0..len(xs)\<close>, and the slice is empty when the upper
  bound does not exceed the lower one. A slice never raises.
\<close>

definition slice_bound :: "nat \<Rightarrow> int \<Rightarrow> nat" where
  "slice_bound n i = (if i < 0 then nat (max 0 (i + int n)) else min (nat i) n)"

definition py_slice :: "'a list \<Rightarrow> int \<Rightarrow> int \<Rightarrow> 'a list" where
  "py_slice xs a b =
     drop (slice_bound (length xs) a) (take (slice_bound (length xs) b) xs)"

text \<open>
  \<^verbatim>\<open>int(field)\<close> on a \<^verbatim>\<open>bytes\<close> object, base 10: optional ASCII whitespace, an
  optional sign, decimal digits with single underscores allowed between digits,
  optional ASCII whitespace, and nothing else. Anything else raises \<^verbatim>\<open>ValueError\<close>,
  which is \<open>None\<close> here.
\<close>

definition is_space_ascii :: "char \<Rightarrow> bool" where
  "is_space_ascii c = (c = CHR 0x09 \<or> c = CHR 0x0A \<or> c = CHR 0x0B \<or> c = CHR 0x0C
     \<or> c = CHR 0x0D \<or> c = CHR 0x20)"

definition is_digit :: "char \<Rightarrow> bool" where
  "is_digit c = (48 \<le> (of_char c :: nat) \<and> (of_char c :: nat) \<le> 57)"

definition digit_val :: "char \<Rightarrow> nat" where
  "digit_val c = of_char c - 48"

text \<open>
  The digit scanner: \<open>acc\<close> is the value read so far, \<open>us\<close> tells whether the last
  character read was an underscore. It stops at the first character that is neither a
  digit nor an underscore and returns the rest.
\<close>

fun scan_digits :: "nat \<Rightarrow> bool \<Rightarrow> string \<Rightarrow> (nat \<times> string) option" where
  "scan_digits acc us [] = (if us then None else Some (acc, []))"
| "scan_digits acc us (c # cs) =
     (if is_digit c then scan_digits (10 * acc + digit_val c) False cs
      else if c = CHR ''_'' then (if us then None else scan_digits acc True cs)
      else if us then None else Some (acc, c # cs))"

definition py_int :: "bytes \<Rightarrow> int option" where
  "py_int s =
     (let s1 = dropWhile is_space_ascii s;
          (sign, s2) = (case s1 of
                          [] \<Rightarrow> (1, s1)
                        | c # r \<Rightarrow> if c = CHR ''+'' then (1, r)
                                   else if c = CHR ''-'' then (- 1, r) else (1, s1))
      in case s2 of
           [] \<Rightarrow> None
         | c # _ \<Rightarrow>
             if \<not> is_digit c then None
             else (case scan_digits 0 False s2 of
                     None \<Rightarrow> None
                   | Some (n, rest) \<Rightarrow>
                       if dropWhile is_space_ascii rest = [] then Some (sign * int n)
                       else None))"

section \<open>Block extraction (\<^verbatim>\<open>capture_channel\<close>, lines 175 to 181)\<close>

definition block_marker :: bytes where
  "block_marker = ''#9''"

definition extract_block :: "bytes \<Rightarrow> error + bytes" where
  "extract_block raw =
     (let marker = py_find raw block_marker in
      if marker = - 1 then Inl HeaderNotFound
      else (case py_int (py_slice raw (marker + 2) (marker + 11)) of
              None \<Rightarrow> Inl InvalidIntLiteral
            | Some data_len \<Rightarrow>
                (let data_start = marker + 11
                 in Inr (py_slice raw data_start (data_start + data_len)))))"

text \<open>The value of a string of decimal digits, most significant digit first.\<close>

definition dec_value :: "string \<Rightarrow> nat" where
  "dec_value ds = foldl (\<lambda>a c. 10 * a + digit_val c) 0 ds"

text \<open>Predicates used to state the properties of the block extractor.\<close>

definition occurs_at :: "bytes \<Rightarrow> bytes \<Rightarrow> nat \<Rightarrow> bool" where
  "occurs_at sub xs j = (take (length sub) (drop j xs) = sub)"

definition field_char :: "char \<Rightarrow> bool" where
  "field_char c = (is_digit c \<or> is_space_ascii c \<or> c = CHR ''+'' \<or> c = CHR ''-'' \<or> c = CHR ''_'')"

section \<open>Time axis and decimation (\<^verbatim>\<open>main\<close>, lines 296 to 313)\<close>

text \<open>
  \<^verbatim>\<open>channel_data\<close> is a dictionary from channel number to voltage list; it is kept
  here as the list of its items, in insertion order.
\<close>

type_synonym channel_data = "(int \<times> real list) list"

text \<open>
  \<^verbatim>\<open>num_points = max(len(v) for v in channel_data.values())\<close>, computed where the
  dictionary is known not to be empty.
\<close>

definition num_points_of :: "channel_data \<Rightarrow> nat" where
  "num_points_of channel_data = foldr max (map (\<lambda>(ch, v). length v) channel_data) 0"

text \<open>
  \<^verbatim>\<open>dt = 1.0 / sara\<close> raises \<^verbatim>\<open>ZeroDivisionError\<close> when \<open>sara\<close> is zero; then
  \<^verbatim>\<open>times = [(i - num_points / 2) * dt for i in range(num_points)]\<close>, where \<open>/\<close> is
  true division.
\<close>

definition build_time_axis :: "nat \<Rightarrow> real \<Rightarrow> error + real list" where
  "build_time_axis num_points sara =
     (if sara = 0 then Inl ZeroDivisionError
      else (let dt = 1 / sara
            in Inr (map (\<lambda>i. (real i - real num_points / 2) * dt) [0..<num_points])))"

text \<open>
  \<^verbatim>\<open>xs[::skip]\<close> for a step \<open>skip \<ge> 1\<close>: the first element, then the first element
  of what is left after \<open>skip - 1\<close> more have been passed over, and so on. The source
  clamps the step to at least 1 before it slices.
\<close>

fun py_stride :: "nat \<Rightarrow> 'a list \<Rightarrow> 'a list" where
  "py_stride skip [] = []"
| "py_stride skip (x # xs) = x # py_stride skip (drop (skip - 1) xs)"

text \<open>
  The decimation step. \<open>maxpoints\<close> is \<^verbatim>\<open>args.maxpoints\<close>, \<open>None\<close> when the option is
  not given, and \<open>ts\<close> is the list \<^verbatim>\<open>times\<close>. The test \<^verbatim>\<open>args.maxpoints and ...\<close>
  is false for \<open>None\<close> and for 0. \<open>//\<close> is floor division, as \<open>div\<close> on \<^typ>\<open>int\<close>
  is.
\<close>

definition decimate ::
  "int option \<Rightarrow> nat \<Rightarrow> real list \<Rightarrow> channel_data \<Rightarrow> real list \<times> channel_data" where
  "decimate maxpoints num_points ts channel_data =
     (case maxpoints of
        None \<Rightarrow> (ts, channel_data)
      | Some mp \<Rightarrow>
          if mp \<noteq> 0 \<and> int num_points > mp then
            (let skip = int num_points div mp;
                 skip = (if skip < 1 then 1 else skip)
             in (py_stride (nat skip) ts,
                 map (\<lambda>(ch, v). (ch, py_stride (nat skip) v)) channel_data))
          else (ts, channel_data))"

text \<open>
  The tail of \<^verbatim>\<open>main\<close> as a whole: the exit when no channel was captured, the time
  axis, the decimation. The result is what \<^verbatim>\<open>save_csv\<close> receives.
\<close>

definition export_data ::
  "real \<Rightarrow> int option \<Rightarrow> channel_data \<Rightarrow> error + real list \<times> channel_data" where
  "export_data sara maxpoints channel_data =
     (if channel_data = [] then Inl NoWaveformData
      else (let num_points = num_points_of channel_data
            in case build_time_axis num_points sara of
                 Inl e \<Rightarrow> Inl e
               | Inr ts \<Rightarrow> Inr (decimate maxpoints num_points ts channel_data)))"

section \<open>Python built-ins used by the value parser\<close>

text \<open>
  The whitespace of \<^verbatim>\<open>str.strip()\<close> and \<^verbatim>\<open>str.split()\<close>, among the code points
  below 256: tab, line feed, vertical tab, form feed, carriage return, the four
  separators \<open>0x1C\<close> to \<open>0x1F\<close>, space, next line (\<open>0x85\<close>) and no-break space
  (\<open>0xA0\<close>).
\<close>

definition is_space_str :: "char \<Rightarrow> bool" where
  "is_space_str c = (c = CHR 0x09 \<or> c = CHR 0x0A \<or> c = CHR 0x0B \<or> c = CHR 0x0C
     \<or> c = CHR 0x0D \<or> c = CHR 0x1C \<or> c = CHR 0x1D \<or> c = CHR 0x1E \<or> c = CHR 0x1F
     \<or> c = CHR 0x20 \<or> c = CHR 0x85 \<or> c = CHR 0xA0)"

definition py_strip :: "string \<Rightarrow> string" where
  "py_strip s = rev (dropWhile is_space_str (rev (dropWhile is_space_str s)))"

text \<open>
  \<^verbatim>\<open>s.split()\<close>: the maximal runs of characters that are not whitespace, in order.
  \<open>cur\<close> is the run being read.
\<close>

fun split_acc :: "string \<Rightarrow> string \<Rightarrow> string list" where
  "split_acc cur [] = (if cur = [] then [] else [cur])"
| "split_acc cur (c # cs) =
     (if is_space_str c then (if cur = [] then split_acc [] cs else cur # split_acc [] cs)
      else split_acc (cur @ [c]) cs)"

definition py_split :: "string \<Rightarrow> string list" where
  "py_split s = split_acc [] s"

text \<open>\<^verbatim>\<open>s.endswith(u)\<close>\<close>

definition endswith :: "string \<Rightarrow> string \<Rightarrow> bool" where
  "endswith s u = (length u \<le> length s \<and> drop (length s - length u) s = u)"

text \<open>
  \<^verbatim>\<open>float(s)\<close> on a \<^verbatim>\<open>str\<close>. The result is a finite number, an infinity (with
  its sign: \<open>True\<close> for the negative one) or a NaN; a finite result is the real number
  that the literal denotes. \<^verbatim>\<open>float\<close> removes less whitespace around the literal than
  \<^verbatim>\<open>strip\<close> does: the six ASCII characters and, above them, next line and no-break
  space, but not the separators \<open>0x1C\<close> to \<open>0x1F\<close>.
\<close>

datatype pyfloat = Finite real | Infinity bool | NaN

definition is_space_float :: "char \<Rightarrow> bool" where
  "is_space_float c = (c = CHR 0x09 \<or> c = CHR 0x0A \<or> c = CHR 0x0B \<or> c = CHR 0x0C
     \<or> c = CHR 0x0D \<or> c = CHR 0x20 \<or> c = CHR 0x85 \<or> c = CHR 0xA0)"

text \<open>
  An underscore is accepted only between two digits; \<open>prev\<close> is the character before
  the list.
\<close>

fun underscores_ok :: "char \<Rightarrow> string \<Rightarrow> bool" where
  "underscores_ok prev [] = True"
| "underscores_ok prev (c # cs) =
     (if c = CHR ''_''
      then is_digit prev \<and> (case cs of [] \<Rightarrow> False | d # _ \<Rightarrow> is_digit d)
           \<and> underscores_ok c cs
      else underscores_ok c cs)"

definition to_lower :: "char \<Rightarrow> char" where
  "to_lower c = (if 65 \<le> (of_char c :: nat) \<and> (of_char c :: nat) \<le> 90
                 then char_of ((of_char c :: nat) + 32) else c)"

text \<open>
  The exponent part: nothing, or \<open>e\<close> or \<open>E\<close>, an optional sign and at least one
  digit, up to the end of the string.
\<close>

definition parse_exponent :: "string \<Rightarrow> int option" where
  "parse_exponent s =
     (case s of
        [] \<Rightarrow> Some 0
      | c # r \<Rightarrow>
          if c = CHR ''e'' \<or> c = CHR ''E'' then
            (let (neg, ds) = (case r of
                                [] \<Rightarrow> (False, r)
                              | d # r' \<Rightarrow> if d = CHR ''+'' then (False, r')
                                          else if d = CHR ''-'' then (True, r') else (False, r))
             in if ds \<noteq> [] \<and> list_all is_digit ds
                then Some (if neg then - int (dec_value ds) else int (dec_value ds))
                else None)
          else None)"

text \<open>
  The unsigned decimal number: digits with an optional fraction, or a fraction alone,
  then the exponent part.
\<close>

definition parse_decimal :: "string \<Rightarrow> real option" where
  "parse_decimal s =
     (let ip = takeWhile is_digit s;
          r1 = dropWhile is_digit s;
          (fp, r2) = (case r1 of
                        [] \<Rightarrow> ([], r1)
                      | c # r \<Rightarrow> if c = CHR ''.''
                                 then (takeWhile is_digit r, dropWhile is_digit r)
                                 else ([], r1))
      in if ip = [] \<and> fp = [] then None
         else (case parse_exponent r2 of
                 None \<Rightarrow> None
               | Some e \<Rightarrow>
                   (let mantissa = real (dec_value ip) + real (dec_value fp) / 10 ^ length fp
                    in Some (if 0 \<le> e then mantissa * 10 ^ nat e
                             else mantissa / 10 ^ nat (- e)))))"

definition py_float :: "string \<Rightarrow> pyfloat option" where
  "py_float s =
     (let t = rev (dropWhile is_space_float (rev (dropWhile is_space_float s))) in
      if \<not> underscores_ok CHR '' '' t then None
      else (let u = filter (\<lambda>c. c \<noteq> CHR ''_'') t;
                (neg, body) = (case u of
                                 [] \<Rightarrow> (False, u)
                               | c # r \<Rightarrow> if c = CHR ''+'' then (False, r)
                                          else if c = CHR ''-'' then (True, r) else (False, u));
                word = map to_lower body
            in if word = ''inf'' \<or> word = ''infinity'' then Some (Infinity neg)
               else if word = ''nan'' then Some NaN
               else (case parse_decimal body of
                       None \<Rightarrow> None
                     | Some x \<Rightarrow> Some (Finite (if neg then - x else x)))))"

text \<open>\<^verbatim>\<open>float(value_str) * multiplier\<close>, for a finite positive multiplier.\<close>

fun float_times :: "pyfloat \<Rightarrow> real \<Rightarrow> pyfloat" where
  "float_times (Finite x) m = Finite (x * m)"
| "float_times (Infinity neg) m = Infinity neg"
| "float_times NaN m = NaN"

section \<open>Value parsing (\<^verbatim>\<open>parse_value\<close>, lines 37 to 66)\<close>

definition unit_suffixes :: "string list" where
  "unit_suffixes = [''Sa/s'', ''sa/s'', ''pts'', ''Pts'', ''Hz'', ''hz'', ''V'', ''v'', ''s'', ''S'']"

text \<open>
  The loop over the units: the first unit of the list that ends the string is cut off,
  and the loop stops.
\<close>

fun strip_unit :: "string list \<Rightarrow> string \<Rightarrow> string" where
  "strip_unit [] value_str = value_str"
| "strip_unit (unit # units) value_str =
     (if endswith value_str unit then take (length value_str - length unit) value_str
      else strip_unit units value_str)"

definition si_prefixes :: "(char \<times> real) list" where
  "si_prefixes =
     [(CHR ''G'', 1000000000), (CHR ''M'', 1000000), (CHR ''k'', 1000),
      (CHR ''m'', 1 / 1000), (CHR ''u'', 1 / 1000000), (CHR ''n'', 1 / 1000000000),
      (CHR ''p'', 1 / 1000000000000)]"

definition parse_value :: "string \<Rightarrow> error + pyfloat" where
  "parse_value response0 =
     (let response = py_strip response0;
          value_str = (if py_split response \<noteq> [] then last (py_split response) else response);
          value_str = strip_unit unit_suffixes value_str;
          (multiplier, value_str) =
            (if value_str \<noteq> [] then
               (case map_of si_prefixes (last value_str) of
                  Some m \<Rightarrow> (m, butlast value_str)
                | None \<Rightarrow> (1, value_str))
             else (1, value_str))
      in case py_float value_str of
           None \<Rightarrow> Inl InvalidFloatLiteral
         | Some x \<Rightarrow> Inr (float_times x multiplier))"

text \<open>The last characters of the known unit suffixes.\<close>

definition unit_tail :: "char \<Rightarrow> bool" where
  "unit_tail c = (c = CHR ''s'' \<or> c = CHR ''S'' \<or> c = CHR ''z'' \<or> c = CHR ''V'' \<or> c = CHR ''v'')"

section \<open>Properties of the waveform decoder\<close>

lemma of_char_int_range: "0 \<le> (of_char b :: int) \<and> (of_char b :: int) < 256"
proof -
  have "(0 \<le> (of_char b :: int) \<and> (of_char b :: int) < 256)
      = (0 \<le> (of_char b :: int) mod 256 \<and> (of_char b :: int) mod 256 < 256)"
    by (simp only: of_char_mod_256)
  also have "0 \<le> (of_char b :: int) mod 256 \<and> (of_char b :: int) mod 256 < 256"
    by (simp only: pos_mod_sign pos_mod_bound zero_less_numeral simp_thms)
  finally show ?thesis .
qed

lemma of_char_byte: "n < 256 \<Longrightarrow> (of_char (byte n) :: int) = int n"
proof -
  assume "n < 256"
  have "(of_char (byte n) :: int) = int (of_char (char_of n))"
    by (simp only: byte_def of_nat_of_char)
  also have "\<dots> = int (n mod 256)"
    by (simp only: of_char_of)
  finally show ?thesis using \<open>n < 256\<close> by simp
qed

lemma sample_code_range: "- 127 \<le> sample_code b \<and> sample_code b \<le> 127"
  using of_char_int_range [of b] by (simp add: sample_code_def)

lemma decode_loop_map:
  "decode_loop vdiv ofst acc bs = acc @ map (sample_voltage vdiv ofst) bs"
  by (induction bs arbitrary: acc) simp_all

lemma decode_waveform_map:
  "decode_waveform bs vdiv ofst = map (sample_voltage vdiv ofst) bs"
  by (simp add: decode_waveform_def decode_loop_map)

text \<open>
  Claim C1. Every input byte \<open>b\<close> in \<open>0..255\<close> is mapped to the signed code \<open>b\<close> when
  \<open>b \<le> 127\<close> and to \<open>b - 255\<close> when \<open>b > 127\<close>. In particular byte 0 gives code 0,
  byte 1 gives 1, byte 127 gives 127, byte 128 gives -127, byte 254 gives -1 and
  byte 255 gives 0.
\<close>

theorem sample_code_table:
  "(\<forall>n < 256. sample_code (byte n) = (if n \<le> 127 then int n else int n - 255))
   \<and> sample_code (byte 0) = 0
   \<and> sample_code (byte 1) = 1
   \<and> sample_code (byte 127) = 127
   \<and> sample_code (byte 128) = - 127
   \<and> sample_code (byte 254) = - 1
   \<and> sample_code (byte 255) = 0"
  by (simp add: sample_code_def of_char_byte)

theorem sample_code_table_witness:
  "(200::nat) < 256 \<and> sample_code (byte 200) = - 55"
  using sample_code_table by simp

text \<open>
  Claim C2. For every byte sequence, scale and offset the decoder produces exactly one
  voltage per input byte, in input order, with value
  \<open>(signed_code / 25) * scale - offset\<close>; the output length equals the input byte
  count, and for scale 1.0 and offset 0.0 each voltage is the signed code divided by 25.0.
\<close>

theorem decode_waveform_voltages:
  "decode_waveform bs scale offset =
     map (\<lambda>b. (real_of_int (sample_code b) / 25) * scale - offset) bs
   \<and> length (decode_waveform bs scale offset) = length bs
   \<and> decode_waveform bs 1 0 = map (\<lambda>b. real_of_int (sample_code b) / 25) bs"
  by (simp add: decode_waveform_map sample_voltage_def code_per_div_def)

theorem decode_waveform_voltages_witness:
  "decode_waveform (map byte [0, 1, 127, 128, 200, 254, 255, 64]) 1 0 =
     [0, 1 / 25, 127 / 25, - 127 / 25, - 55 / 25, - 1 / 25, 0, 64 / 25]"
  using decode_waveform_voltages [of "map byte [0, 1, 127, 128, 200, 254, 255, 64]" 1 0]
  by (simp add: sample_code_def of_char_byte)

section \<open>Properties of the block extractor\<close>

lemma occurs_at_0: "occurs_at sub xs 0 = (take (length sub) xs = sub)"
  by (simp add: occurs_at_def)

lemma occurs_at_Suc: "occurs_at sub (x # xs) (Suc j) = occurs_at sub xs j"
  by (simp add: occurs_at_def)

lemma find_from_least:
  "occurs_at sub xs k \<Longrightarrow>
   \<exists>m\<le>k. find_from sub i xs = int (i + m) \<and> occurs_at sub xs m
          \<and> (\<forall>j<m. \<not> occurs_at sub xs j)"
proof (induction xs arbitrary: i k)
  case Nil
  then have "sub = []" by (simp add: occurs_at_def)
  then show ?case by (simp add: occurs_at_def)
next
  case (Cons x xs)
  show ?case
  proof (cases "take (length sub) (x # xs) = sub")
    case True
    then have "find_from sub i (x # xs) = int (i + 0)" by simp
    moreover have "occurs_at sub (x # xs) 0" using True by (simp add: occurs_at_0)
    ultimately show ?thesis by blast
  next
    case False
    then have "\<not> occurs_at sub (x # xs) 0" by (simp add: occurs_at_0)
    with Cons.prems obtain k' where k: "k = Suc k'" by (cases k) auto
    with Cons.prems have "occurs_at sub xs k'" by (simp add: occurs_at_Suc)
    from Cons.IH [OF this, of "Suc i"] obtain m where m: "m \<le> k'"
      "find_from sub (Suc i) xs = int (Suc i + m)" "occurs_at sub xs m"
      "\<forall>j<m. \<not> occurs_at sub xs j" by blast
    have "find_from sub i (x # xs) = int (i + Suc m)" using False m(2) by simp
    moreover have "occurs_at sub (x # xs) (Suc m)" using m(3) by (simp add: occurs_at_Suc)
    moreover have "\<forall>j<Suc m. \<not> occurs_at sub (x # xs) j"
    proof (intro allI impI)
      fix j assume "j < Suc m"
      show "\<not> occurs_at sub (x # xs) j"
      proof (cases j)
        case 0
        then show ?thesis using \<open>\<not> occurs_at sub (x # xs) 0\<close> by simp
      next
        case (Suc j')
        then show ?thesis using m(4) \<open>j < Suc m\<close> by (simp add: occurs_at_Suc)
      qed
    qed
    moreover have "Suc m \<le> k" using m(1) k by simp
    ultimately show ?thesis by blast
  qed
qed

lemma find_from_found:
  "find_from sub i xs = int m \<Longrightarrow>
   i \<le> m \<and> occurs_at sub xs (m - i) \<and> (\<forall>j<m - i. \<not> occurs_at sub xs j)"
proof (induction xs arbitrary: i)
  case Nil
  then show ?case by (auto simp: occurs_at_def split: if_splits)
next
  case (Cons x xs)
  show ?case
  proof (cases "take (length sub) (x # xs) = sub")
    case True
    with Cons.prems have "m = i" by simp
    then show ?thesis using True by (simp add: occurs_at_0)
  next
    case False
    with Cons.prems have "find_from sub (Suc i) xs = int m" by simp
    from Cons.IH [OF this] have ih: "Suc i \<le> m" "occurs_at sub xs (m - Suc i)"
      "\<forall>j<m - Suc i. \<not> occurs_at sub xs j" by auto
    have eq: "m - i = Suc (m - Suc i)" using ih(1) by simp
    have "\<forall>j<m - i. \<not> occurs_at sub (x # xs) j"
    proof (intro allI impI)
      fix j assume j: "j < m - i"
      show "\<not> occurs_at sub (x # xs) j"
      proof (cases j)
        case 0
        then show ?thesis using False by (simp add: occurs_at_0)
      next
        case (Suc j')
        then show ?thesis using ih(3) j eq by (simp add: occurs_at_Suc)
      qed
    qed
    then show ?thesis using ih eq by (simp add: occurs_at_Suc)
  qed
qed

lemma find_from_missing:
  "find_from sub i xs = - 1 \<Longrightarrow> \<not> occurs_at sub xs k"
  using find_from_least [of sub xs k i] by auto

lemma py_slice_nat: "py_slice xs (int a) (int b) = drop a (take b xs)"
  by (simp add: py_slice_def slice_bound_def min_def)

lemma py_slice_from: "0 \<le> n \<Longrightarrow> py_slice xs (int a) (int a + n) = take (nat n) (drop a xs)"
proof -
  assume "0 \<le> n"
  then have "int a + n = int (a + nat n)" by simp
  then have "py_slice xs (int a) (int a + n) = drop a (take (a + nat n) xs)"
    by (simp only: py_slice_nat)
  then show ?thesis by (simp add: drop_take)
qed

lemma scan_digits_all:
  "list_all is_digit ds \<Longrightarrow>
   scan_digits acc False ds = Some (foldl (\<lambda>a c. 10 * a + digit_val c) acc ds, [])"
  by (induction ds arbitrary: acc) simp_all

lemma digit_not_space: "is_digit c \<Longrightarrow> \<not> is_space_ascii c"
  by (auto simp: is_digit_def is_space_ascii_def)

lemma digit_not_sign: "is_digit c \<Longrightarrow> c \<noteq> CHR ''+'' \<and> c \<noteq> CHR ''-''"
  by (auto simp: is_digit_def)

lemma py_int_digits:
  assumes "ds \<noteq> []" and "list_all is_digit ds"
  shows "py_int ds = Some (int (dec_value ds))"
proof -
  from assms obtain c cs where ds: "ds = c # cs" and c: "is_digit c" and cs: "list_all is_digit cs"
    by (cases ds) auto
  have "scan_digits 0 False (c # cs) = Some (dec_value (c # cs), [])"
    using scan_digits_all [of "c # cs" 0] c cs by (simp add: dec_value_def)
  then show ?thesis
    using c digit_not_space [OF c] digit_not_sign [OF c]
    by (simp add: py_int_def ds del: scan_digits.simps)
qed

lemma extract_block_at:
  assumes "py_find raw block_marker = int m"
  shows "extract_block raw =
    (case py_int (take 9 (drop (m + 2) raw)) of
       None \<Rightarrow> Inl InvalidIntLiteral
     | Some n \<Rightarrow> Inr (py_slice raw (int m + 11) (int m + 11 + n)))"
proof -
  have "int m + 2 = int (m + 2)" and "int m + 11 = int (m + 2) + 9"
    by simp_all
  then have "py_slice raw (int m + 2) (int m + 11) = py_slice raw (int (m + 2)) (int (m + 2) + 9)"
    by (simp only:)
  also have "\<dots> = take 9 (drop (m + 2) raw)"
    using py_slice_from [of 9 raw "m + 2"] by simp
  finally show ?thesis using assms by (simp add: extract_block_def Let_def split: option.splits)
qed

lemma py_find_least:
  "occurs_at block_marker raw k \<Longrightarrow>
   \<exists>m\<le>k. py_find raw block_marker = int m \<and> occurs_at block_marker raw m
          \<and> (\<forall>j<m. \<not> occurs_at block_marker raw j)"
  using find_from_least [of block_marker raw k 0] by (simp add: py_find_def)

lemma py_find_found:
  "py_find raw block_marker = int m \<Longrightarrow>
   occurs_at block_marker raw m \<and> (\<forall>j<m. \<not> occurs_at block_marker raw j)"
  using find_from_found [of block_marker 0 raw m] by (simp add: py_find_def)

lemma occurs_at_drop:
  "occurs_at sub (drop m xs) j = occurs_at sub xs (m + j)"
  by (simp add: occurs_at_def add.commute)

lemma py_find_drop:
  assumes "py_find raw block_marker = int m"
  shows "py_find (drop m raw) block_marker = 0"
proof -
  from py_find_found [OF assms] have "occurs_at block_marker (drop m raw) 0"
    by (simp add: occurs_at_drop)
  from py_find_least [OF this] show ?thesis by simp
qed

lemma extract_block_drop:
  assumes "py_find raw block_marker = int m"
    and "py_int (take 9 (drop (m + 2) raw)) = Some n" and "0 \<le> n"
  shows "extract_block raw = Inr (take (nat n) (drop (m + 11) raw))"
    and "extract_block (drop m raw) = extract_block raw"
proof -
  have "int m + 11 = int (m + 11)" by simp
  then show a: "extract_block raw = Inr (take (nat n) (drop (m + 11) raw))"
    using extract_block_at [OF assms(1)] assms(2) py_slice_from [OF assms(3), of raw "m + 11"]
    by simp
  have "py_find (drop m raw) block_marker = int 0"
    using py_find_drop [OF assms(1)] by simp
  from extract_block_at [OF this]
  have "extract_block (drop m raw) = Inr (py_slice (drop m raw) (int 11) (int 11 + n))"
    using assms(2) by (simp add: add.commute)
  also have "\<dots> = Inr (take (nat n) (drop 11 (drop m raw)))"
    by (simp only: py_slice_from [OF assms(3)])
  finally show "extract_block (drop m raw) = extract_block raw"
    using a by (simp add: add.commute)
qed

lemma scan_digits_chars:
  "scan_digits acc us s = Some (n, rest) \<Longrightarrow>
   \<exists>pre. s = pre @ rest \<and> list_all (\<lambda>c. is_digit c \<or> c = CHR ''_'') pre"
proof (induction s arbitrary: acc us)
  case Nil
  then show ?case by (simp split: if_splits)
next
  case (Cons c cs)
  show ?case
  proof (cases "is_digit c \<or> c = CHR ''_''")
    case True
    then obtain acc' us' where "scan_digits acc' us' cs = Some (n, rest)"
      using Cons.prems by (auto split: if_splits)
    from Cons.IH [OF this] obtain pre where "cs = pre @ rest"
      "list_all (\<lambda>c. is_digit c \<or> c = CHR ''_'') pre" by blast
    then have "c # cs = (c # pre) @ rest \<and> list_all (\<lambda>c. is_digit c \<or> c = CHR ''_'') (c # pre)"
      using True by simp
    then show ?thesis by blast
  next
    case False
    then have "rest = c # cs" using Cons.prems by (auto split: if_splits)
    then have "c # cs = [] @ rest \<and> list_all (\<lambda>c. is_digit c \<or> c = CHR ''_'') []" by simp
    then show ?thesis by blast
  qed
qed

lemma dropWhile_nil_all: "dropWhile P xs = [] \<Longrightarrow> list_all P xs"
  by (induction xs) (auto split: if_splits)

lemma list_all_dropWhile_split:
  "list_all Q (dropWhile P xs) \<Longrightarrow> list_all (\<lambda>c. P c \<or> Q c) xs"
  by (induction xs) (auto split: if_splits simp: list_all_iff)

lemma py_int_chars:
  assumes "py_int s = Some n"
  shows "list_all field_char s"
proof -
  let ?s1 = "dropWhile is_space_ascii s"
  obtain sign s2 where sp: "(case ?s1 of
                          [] \<Rightarrow> (1::int, ?s1)
                        | c # r \<Rightarrow> if c = CHR ''+'' then (1, r)
                                   else if c = CHR ''-'' then (- 1, r) else (1, ?s1)) = (sign, s2)"
    by (cases "(case ?s1 of
                          [] \<Rightarrow> (1::int, ?s1)
                        | c # r \<Rightarrow> if c = CHR ''+'' then (1, r)
                                   else if c = CHR ''-'' then (- 1, r) else (1, ?s1))") auto
  from assms sp obtain m rest where sc: "scan_digits 0 False s2 = Some (m, rest)"
    and rest: "dropWhile is_space_ascii rest = []"
    by (auto simp: py_int_def split: list.splits if_splits option.splits)
  from scan_digits_chars [OF sc] obtain pre where pre: "s2 = pre @ rest"
    "list_all (\<lambda>c. is_digit c \<or> c = CHR ''_'') pre" by blast
  have "list_all is_space_ascii rest" using rest by (rule dropWhile_nil_all)
  then have "list_all field_char s2" using pre
    by (auto simp: list_all_iff field_char_def)
  moreover have "?s1 = s2 \<or> (\<exists>c. field_char c \<and> ?s1 = c # s2)"
    using sp by (auto simp: field_char_def split: list.splits if_splits)
  ultimately have "list_all field_char ?s1" by auto
  then have "list_all (\<lambda>c. is_space_ascii c \<or> field_char c) s"
    by (rule list_all_dropWhile_split)
  then show ?thesis by (auto simp: list_all_iff field_char_def)
qed

subsection \<open>Truncated blocks\<close>

text \<open>
  Claim C3 as stated, that a buffer holding fewer payload bytes than declared makes the
  extraction fail, does not hold: \<^verbatim>\<open>raw[data_start : data_start + data_len]\<close> is a slice, and a
  slice stops at the end of the buffer. Here the marker is at index 0, the length
  field is the nine digits \<open>000000005\<close>, three payload bytes follow, and the extraction
  returns these three bytes.
\<close>

theorem extract_block_truncated_counterexample:
  "py_find ''#9000000005HEL'' block_marker = 0
   \<and> take 9 (drop 2 ''#9000000005HEL'') = ''000000005''
   \<and> list_all is_digit ''000000005''
   \<and> dec_value ''000000005'' = 5
   \<and> drop 11 ''#9000000005HEL'' = ''HEL''
   \<and> extract_block ''#9000000005HEL'' = Inr ''HEL''"
  by (simp add: extract_block_def py_find_def block_marker_def py_slice_def slice_bound_def
      py_int_def is_digit_def digit_val_def is_space_ascii_def dec_value_def)

text \<open>
  Claim C3, as the code has it. For every raw buffer whose first block marker is at
  index \<open>m\<close> and is followed by nine ASCII digits, the extraction succeeds; the payload
  is made of the bytes that follow the length field, as many as declared or, when the
  buffer holds fewer, all that are left. So the payload length is the minimum of the
  declared length and the number of bytes after the length field: it equals the
  declared length exactly when the buffer holds at least that many.
\<close>

theorem extract_block_payload_length:
  assumes "py_find raw block_marker = int m"
    and "length (take 9 (drop (m + 2) raw)) = 9"
    and "list_all is_digit (take 9 (drop (m + 2) raw))"
  shows "\<exists>payload. extract_block raw = Inr payload
     \<and> payload = take (dec_value (take 9 (drop (m + 2) raw))) (drop (m + 11) raw)
     \<and> length payload = min (dec_value (take 9 (drop (m + 2) raw))) (length raw - (m + 11))"
proof -
  let ?field = "take 9 (drop (m + 2) raw)"
  have "?field \<noteq> []" using assms(2) by auto
  then have "py_int ?field = Some (int (dec_value ?field))"
    using assms(3) by (rule py_int_digits)
  from extract_block_drop(1) [OF assms(1) this]
  have "extract_block raw = Inr (take (dec_value ?field) (drop (m + 11) raw))" by simp
  then show ?thesis by simp
qed

theorem extract_block_payload_length_witness:
  "py_find ''junk#9000000005HELLOtrailer'' block_marker = 4
   \<and> extract_block ''junk#9000000005HELLOtrailer'' = Inr ''HELLO''"
proof -
  have m: "py_find ''junk#9000000005HELLOtrailer'' block_marker = int 4"
    by (simp add: py_find_def block_marker_def)
  have l: "length (take 9 (drop (4 + 2) ''junk#9000000005HELLOtrailer'')) = 9" by simp
  have d: "list_all is_digit (take 9 (drop (4 + 2) ''junk#9000000005HELLOtrailer''))"
    by (simp add: is_digit_def)
  from extract_block_payload_length [OF m l d] m show ?thesis
    by (simp add: dec_value_def digit_val_def)
qed

subsection \<open>The length field\<close>

text \<open>
  Claim C8 as stated, that the extraction reads exactly nine bytes and fails whenever
  they are not all decimal digits, does not hold: \<^verbatim>\<open>int(...)\<close> accepts a sign, and a
  slice is shorter than nine bytes when the buffer ends earlier. In the first buffer
  the field is \<open>+00000005\<close> and the extraction returns the five payload bytes; in the
  second the field is the single byte \<open>5\<close> and the extraction returns an empty payload.
\<close>

theorem extract_block_length_field_counterexample:
  "py_find ''#9+00000005HELLO'' block_marker = 0
   \<and> take 9 (drop 2 ''#9+00000005HELLO'') = ''+00000005''
   \<and> \<not> list_all is_digit ''+00000005''
   \<and> extract_block ''#9+00000005HELLO'' = Inr ''HELLO''
   \<and> py_find ''#95'' block_marker = 0
   \<and> take 9 (drop 2 ''#95'') = ''5''
   \<and> extract_block ''#95'' = Inr []"
  by (simp add: extract_block_def py_find_def block_marker_def py_slice_def slice_bound_def
      py_int_def is_digit_def digit_val_def is_space_ascii_def)

text \<open>
  Claim C8, as the code has it. For every raw buffer whose first block marker is at
  index \<open>m\<close>, the length field is the slice of at most nine bytes after the marker, and
  the extraction fails exactly when \<^verbatim>\<open>int(...)\<close> rejects that slice. It fails whenever
  the slice holds a byte that is not a digit, ASCII whitespace, a sign or an
  underscore; nine ASCII digits are always accepted, with their decimal value as the
  declared length.
\<close>

theorem extract_block_length_field:
  assumes "py_find raw block_marker = int m"
  shows "((\<exists>e. extract_block raw = Inl e) \<longleftrightarrow> py_int (take 9 (drop (m + 2) raw)) = None)
     \<and> (\<not> list_all field_char (take 9 (drop (m + 2) raw))
          \<longrightarrow> extract_block raw = Inl InvalidIntLiteral)
     \<and> (length (take 9 (drop (m + 2) raw)) = 9 \<and> list_all is_digit (take 9 (drop (m + 2) raw))
          \<longrightarrow> py_int (take 9 (drop (m + 2) raw)) = Some (int (dec_value (take 9 (drop (m + 2) raw))))
              \<and> (\<exists>payload. extract_block raw = Inr payload))"
proof -
  let ?field = "take 9 (drop (m + 2) raw)"
  note eb = extract_block_at [OF assms]
  have a: "(\<exists>e. extract_block raw = Inl e) \<longleftrightarrow> py_int ?field = None"
    using eb by (auto split: option.splits)
  have b: "\<not> list_all field_char ?field \<longrightarrow> extract_block raw = Inl InvalidIntLiteral"
    using eb py_int_chars [of ?field] by (auto split: option.splits)
  have c: "length ?field = 9 \<and> list_all is_digit ?field
          \<longrightarrow> py_int ?field = Some (int (dec_value ?field))
              \<and> (\<exists>payload. extract_block raw = Inr payload)"
  proof
    assume h: "length ?field = 9 \<and> list_all is_digit ?field"
    then have "?field \<noteq> []" by auto
    then have "py_int ?field = Some (int (dec_value ?field))"
      using h by (simp add: py_int_digits)
    then show "py_int ?field = Some (int (dec_value ?field))
              \<and> (\<exists>payload. extract_block raw = Inr payload)"
      using eb by simp
  qed
  from a b c show ?thesis by blast
qed

theorem extract_block_length_field_witness:
  "py_find ''junk#9000000005HELLOtrailer'' block_marker = 4
   \<and> py_int ''000000005'' = Some 5
   \<and> (\<exists>payload. extract_block ''junk#9000000005HELLOtrailer'' = Inr payload)
   \<and> py_find ''#9 0000x05HELLO'' block_marker = 0
   \<and> extract_block ''#9 0000x05HELLO'' = Inl InvalidIntLiteral"
proof -
  have m: "py_find ''junk#9000000005HELLOtrailer'' block_marker = int 4"
    by (simp add: py_find_def block_marker_def)
  have m2: "py_find ''#9 0000x05HELLO'' block_marker = int 0"
    by (simp add: py_find_def block_marker_def)
  from extract_block_length_field [OF m] extract_block_length_field [OF m2] m m2
  show ?thesis
    by (simp add: is_digit_def dec_value_def digit_val_def field_char_def is_space_ascii_def)
qed

subsection \<open>The first marker\<close>

text \<open>
  Claim C10 as stated, that all bytes before the first marker are ignored, does not hold
  for a negative declared length: the upper bound of the payload slice is then negative, so
  it counts from the end of the buffer, and the payload depends on how many bytes
  precede the marker. The two buffers below are equal from the first marker on.
\<close>

theorem extract_block_first_marker_counterexample:
  "py_find ''x#9-00000012AB#9CD'' block_marker = 1
   \<and> drop 1 ''x#9-00000012AB#9CD'' = ''#9-00000012AB#9CD''
   \<and> extract_block ''#9-00000012AB#9CD'' = Inr ''AB#9C''
   \<and> extract_block ''x#9-00000012AB#9CD'' = Inr ''''"
  by (simp add: extract_block_def py_find_def block_marker_def py_slice_def slice_bound_def
      py_int_def is_digit_def digit_val_def is_space_ascii_def)

text \<open>
  Claim C10, as the code has it. If the raw buffer holds the block marker at some index
  \<open>k\<close>, possibly among other occurrences, the extraction uses the lowest index \<open>m\<close> at
  which the marker occurs: the length field is the slice of nine bytes that starts at
  \<open>m + 2\<close> and the payload slice starts at \<open>m + 11\<close>. Whenever the declared length is
  not negative the payload is made of the bytes that follow the length field, and
  the result is the one obtained from the buffer without the bytes before the marker.
\<close>

theorem extract_block_first_marker:
  assumes "occurs_at block_marker raw k"
  shows "\<exists>m\<le>k. py_find raw block_marker = int m
     \<and> occurs_at block_marker raw m \<and> (\<forall>j<m. \<not> occurs_at block_marker raw j)
     \<and> extract_block raw =
         (case py_int (take 9 (drop (m + 2) raw)) of
            None \<Rightarrow> Inl InvalidIntLiteral
          | Some n \<Rightarrow> Inr (py_slice raw (int m + 11) (int m + 11 + n)))
     \<and> (\<forall>n. py_int (take 9 (drop (m + 2) raw)) = Some n \<and> 0 \<le> n \<longrightarrow>
           extract_block raw = Inr (take (nat n) (drop (m + 11) raw))
           \<and> extract_block (drop m raw) = extract_block raw)"
proof -
  from py_find_least [OF assms] obtain m where m: "m \<le> k" "py_find raw block_marker = int m"
    "occurs_at block_marker raw m" "\<forall>j<m. \<not> occurs_at block_marker raw j" by blast
  note eb = extract_block_at [OF m(2)]
  have "\<forall>n. py_int (take 9 (drop (m + 2) raw)) = Some n \<and> 0 \<le> n \<longrightarrow>
           extract_block raw = Inr (take (nat n) (drop (m + 11) raw))
           \<and> extract_block (drop m raw) = extract_block raw"
    using extract_block_drop [OF m(2)] by blast
  with m eb show ?thesis by blast
qed

theorem extract_block_first_marker_witness:
  "occurs_at block_marker ''ab#9000000002XY#9000000001Z'' 15
   \<and> py_find ''ab#9000000002XY#9000000001Z'' block_marker = 2
   \<and> extract_block ''ab#9000000002XY#9000000001Z'' = Inr ''XY''"
proof -
  let ?raw = "''ab#9000000002XY#9000000001Z''"
  have k: "occurs_at block_marker ?raw 15"
    by (simp add: occurs_at_def block_marker_def)
  have f: "py_find ?raw block_marker = 2"
    by (simp add: py_find_def block_marker_def)
  from extract_block_first_marker [OF k] obtain m where
    "py_find ?raw block_marker = int m"
    "extract_block ?raw =
         (case py_int (take 9 (drop (m + 2) ?raw)) of
            None \<Rightarrow> Inl InvalidIntLiteral
          | Some n \<Rightarrow> Inr (py_slice ?raw (int m + 11) (int m + 11 + n)))" by blast
  with f have "m = 2" and "extract_block ?raw =
         (case py_int (take 9 (drop (2 + 2) ?raw)) of
            None \<Rightarrow> Inl InvalidIntLiteral
          | Some n \<Rightarrow> Inr (py_slice ?raw (int 2 + 11) (int 2 + 11 + n)))" by auto
  then have "extract_block ?raw = Inr ''XY''"
    by (simp add: py_int_def is_digit_def digit_val_def is_space_ascii_def py_slice_def slice_bound_def)
  with k f show ?thesis by simp
qed

section \<open>Properties of the time axis\<close>

lemma build_time_axis_ok:
  "sara \<noteq> 0 \<Longrightarrow>
   build_time_axis N sara = Inr (map (\<lambda>i. (real i - real N / 2) / sara) [0..<N])"
  by (simp add: build_time_axis_def Let_def)

lemma build_time_axis_example: "build_time_axis 4 1 = Inr [- 2, - 1, 0, 1]"
  by (simp add: build_time_axis_ok upt_conv_Cons)

lemma axis_increasing:
  assumes "0 < sara"
  shows "sorted_wrt (<) (map (\<lambda>i. (real i - real N / 2) / sara) [0..<N])"
proof -
  have "(real i - real N / 2) / sara < (real j - real N / 2) / sara" if "i < j" for i j :: nat
    using that assms by (simp add: divide_strict_right_mono)
  then show ?thesis by (simp add: sorted_wrt_iff_nth_less)
qed

lemma axis_decreasing:
  assumes "sara < 0"
  shows "sorted_wrt (>) (map (\<lambda>i. (real i - real N / 2) / sara) [0..<N])"
proof -
  have "(real j - real N / 2) / sara < (real i - real N / 2) / sara" if "i < j" for i j :: nat
    using that assms by (simp add: divide_strict_right_mono_neg)
  then show ?thesis by (simp add: sorted_wrt_iff_nth_less)
qed

text \<open>
  Claim C6. For every sample count \<open>N\<close> and every sample rate \<open>sara > 0\<close> the time axis
  has exactly \<open>N\<close> timestamps, the one at index \<open>i\<close> being \<open>(i - N/2) / sara\<close> with
  \<open>N/2\<close> not truncated, and it is strictly increasing; for \<open>N = 4\<close> and \<open>sara = 1\<close>
  it is \<open>[-2, -1, 0, 1]\<close>.
\<close>

theorem build_time_axis_centered:
  assumes "0 < sara"
  shows "(\<exists>ts. build_time_axis N sara = Inr ts \<and> length ts = N
            \<and> (\<forall>i<N. ts ! i = (real i - real N / 2) / sara)
            \<and> sorted_wrt (<) ts)
         \<and> build_time_axis 4 1 = Inr [- 2, - 1, 0, 1]"
proof -
  let ?ts = "map (\<lambda>i. (real i - real N / 2) / sara) [0..<N]"
  have "build_time_axis N sara = Inr ?ts" using assms by (simp add: build_time_axis_ok)
  moreover have "length ?ts = N" by simp
  moreover have "\<forall>i<N. ?ts ! i = (real i - real N / 2) / sara" by simp
  moreover have "sorted_wrt (<) ?ts" using assms by (rule axis_increasing)
  ultimately show ?thesis using build_time_axis_example by blast
qed

theorem build_time_axis_centered_witness:
  "(0::real) < 2 \<and> build_time_axis 3 2 = Inr [- 3 / 4, - 1 / 4, 1 / 4]"
proof -
  have h: "(0::real) < 2" by simp
  from build_time_axis_centered [OF h, of 3] obtain ts where
    ts: "build_time_axis 3 2 = Inr ts" "length ts = 3"
    "\<forall>i<3. ts ! i = (real i - real 3 / 2) / 2" by blast
  from ts(2) obtain a b c where abc: "ts = [a, b, c]"
    by (auto simp: numeral_3_eq_3 length_Suc_conv)
  have "ts ! 0 = - 3 / 4" and "ts ! 1 = - 1 / 4" and "ts ! 2 = 1 / 4"
    using ts(3) [rule_format, of 0] ts(3) [rule_format, of 1] ts(3) [rule_format, of 2]
    by simp_all
  with abc have "ts = [- 3 / 4, - 1 / 4, 1 / 4]" by simp
  with ts(1) show ?thesis by simp
qed

text \<open>
  Claim C7 as stated, that a sample rate \<open>sara \<le> 0\<close> makes the construction fail, does
  not hold for a negative rate: the source divides by \<open>sara\<close> and tests nothing.
\<close>

theorem build_time_axis_rate_counterexample:
  "(- 1 :: real) \<le> 0 \<and> build_time_axis 4 (- 1) = Inr [2, 1, 0, - 1]"
  by (simp add: build_time_axis_ok upt_conv_Cons)

text \<open>
  Claim C7, as the code has it. For every sample count \<open>N\<close> and every sample rate
  \<open>sara \<le> 0\<close>: when \<open>sara\<close> is zero the construction fails, with the division error
  of \<^verbatim>\<open>1.0 / sara\<close>; when \<open>sara\<close> is negative it does not fail and yields the \<open>N\<close>
  timestamps \<open>(i - N/2) / sara\<close>, a strictly decreasing axis.
\<close>

theorem build_time_axis_nonpositive_rate:
  assumes "sara \<le> 0"
  shows "(sara = 0 \<longrightarrow> build_time_axis N sara = Inl ZeroDivisionError)
     \<and> (sara < 0 \<longrightarrow>
          (\<exists>ts. build_time_axis N sara = Inr ts \<and> length ts = N
             \<and> (\<forall>i<N. ts ! i = (real i - real N / 2) / sara)
             \<and> sorted_wrt (>) ts))"
proof -
  have "sara = 0 \<longrightarrow> build_time_axis N sara = Inl ZeroDivisionError"
    by (simp add: build_time_axis_def)
  moreover have "sara < 0 \<longrightarrow>
          (\<exists>ts. build_time_axis N sara = Inr ts \<and> length ts = N
             \<and> (\<forall>i<N. ts ! i = (real i - real N / 2) / sara)
             \<and> sorted_wrt (>) ts)"
  proof
    assume neg: "sara < 0"
    let ?ts = "map (\<lambda>i. (real i - real N / 2) / sara) [0..<N]"
    have "build_time_axis N sara = Inr ?ts" using neg by (simp add: build_time_axis_ok)
    moreover have "length ?ts = N" by simp
    moreover have "\<forall>i<N. ?ts ! i = (real i - real N / 2) / sara" by simp
    moreover have "sorted_wrt (>) ?ts" using neg by (rule axis_decreasing)
    ultimately show "\<exists>ts. build_time_axis N sara = Inr ts \<and> length ts = N
             \<and> (\<forall>i<N. ts ! i = (real i - real N / 2) / sara)
             \<and> sorted_wrt (>) ts" by blast
  qed
  ultimately show ?thesis by blast
qed

theorem build_time_axis_nonpositive_rate_witness:
  "(0::real) \<le> 0 \<and> build_time_axis 4 0 = Inl ZeroDivisionError"
proof -
  have h: "(0::real) \<le> 0" by simp
  from build_time_axis_nonpositive_rate [OF h, of 4] show ?thesis by simp
qed

section \<open>Properties of the decimation\<close>

lemma length_py_stride:
  "0 < k \<Longrightarrow> length (py_stride k xs) = (length xs + k - 1) div k"
proof (induction k xs rule: py_stride.induct)
  case (1 skip)
  then show ?case by simp
next
  case (2 skip x xs)
  have "length (py_stride skip (x # xs)) = Suc ((length xs - (skip - 1) + skip - 1) div skip)"
    using 2 by simp
  also have "(length xs - (skip - 1) + skip - 1) div skip = length xs div skip"
  proof (cases "skip - 1 \<le> length xs")
    case True
    then have "length xs - (skip - 1) + skip - 1 = length xs" using \<open>0 < skip\<close> by arith
    then show ?thesis by (simp only:)
  next
    case False
    then have "length xs - (skip - 1) + skip - 1 = skip - 1" and "length xs < skip" by arith+
    moreover have "(skip - 1) div skip = 0" using \<open>0 < skip\<close> by simp
    ultimately show ?thesis by (simp only: div_less)
  qed
  also have "Suc (length xs div skip) = (length (x # xs) + skip - 1) div skip"
    using \<open>0 < skip\<close> by simp
  finally show ?case .
qed

lemma nth_py_stride:
  "0 < k \<Longrightarrow> j < length (py_stride k xs) \<Longrightarrow> py_stride k xs ! j = xs ! (j * k)"
proof (induction k xs arbitrary: j rule: py_stride.induct)
  case (1 skip)
  then show ?case by simp
next
  case (2 skip x xs)
  show ?case
  proof (cases j)
    case 0
    then show ?thesis by simp
  next
    case (Suc i)
    with 2 have i: "i < length (py_stride skip (drop (skip - 1) xs))" by simp
    from "2.IH" [OF \<open>0 < skip\<close> i]
    have "py_stride skip (drop (skip - 1) xs) ! i = drop (skip - 1) xs ! (i * skip)" .
    also have "\<dots> = xs ! (skip - 1 + i * skip)"
    proof -
      have "drop (skip - 1) xs \<noteq> []" using i by auto
      then have "skip - 1 \<le> length xs" by simp
      then show ?thesis by (rule nth_drop)
    qed
    also have "skip - 1 + i * skip = Suc i * skip - 1" using \<open>0 < skip\<close> by simp
    also have "xs ! (Suc i * skip - 1) = (x # xs) ! (Suc i * skip)"
      using \<open>0 < skip\<close> by (simp add: nth_Cons')
    finally show ?thesis using Suc by simp
  qed
qed

lemma length_le_num_points_of:
  "(ch, v) \<in> set cd \<Longrightarrow> length v \<le> num_points_of cd"
  by (induction cd) (auto simp: num_points_of_def)

lemma stride_length_mono:
  "0 < k \<Longrightarrow> length xs \<le> length ys \<Longrightarrow> length (py_stride k xs) \<le> length (py_stride k ys)"
  by (simp add: length_py_stride div_le_mono)

lemma decimate_reduces:
  assumes "mp \<noteq> 0" and "mp < int n"
  shows "decimate (Some mp) n ts cd =
    (py_stride (nat (max 1 (int n div mp))) ts,
     map (\<lambda>(ch, v). (ch, py_stride (nat (max 1 (int n div mp))) v)) cd)"
proof -
  have "(if int n div mp < 1 then 1 else int n div mp) = max 1 (int n div mp)"
    by (simp add: max_def)
  then show ?thesis using assms by (simp add: decimate_def Let_def)
qed

lemma export_data_reduces:
  assumes "cd \<noteq> []" and "sara \<noteq> 0" and "mp \<noteq> 0" and "mp < int (num_points_of cd)"
    and "build_time_axis (num_points_of cd) sara = Inr ts"
  shows "export_data sara (Some mp) cd =
    Inr (py_stride (nat (max 1 (int (num_points_of cd) div mp))) ts,
         map (\<lambda>(ch, v). (ch, py_stride (nat (max 1 (int (num_points_of cd) div mp))) v)) cd)"
  using assms by (simp add: export_data_def Let_def decimate_reduces)

text \<open>
  Claim C9 as stated, that the channel outputs and the axis output always have equal
  length, does not hold when the channels differ in length: the axis is as long as the longest
  channel, and every list is sliced on its own. Here channel 2 has two samples and
  channel 1 has four; after decimation the axis has two points and channel 2 has one.
\<close>

theorem decimate_alignment_counterexample:
  "export_data 1 (Some 2) [(1, [1, 2, 3, 4]), (2, [5, 6])] =
     Inr ([- 2, 0], [(1, [1, 3]), (2, [5])])
   \<and> length [5 :: real] \<noteq> length [- 2, 0 :: real]"
  by (simp add: export_data_def build_time_axis_def decimate_def num_points_of_def upt_conv_Cons)

text \<open>
  Claim C9, as the code has it. Whenever the decimation reduces the data (a maximum
  \<open>mp\<close> is set, is not zero, and is less than the point count \<open>N\<close>), the time axis
  and every channel are sliced with the same step \<open>skip = max 1 (N div mp)\<close>. Each
  output holds the elements at the indices \<open>0, skip, 2 * skip, ...\<close> below the length of
  its own input: element \<open>j\<close> of an output is element \<open>j * skip\<close> of its input, for
  the axis and for every channel alike. No channel output is longer than the axis
  output, and a channel as long as the axis has an output as long as the axis output;
  a shorter channel may have a shorter output.
\<close>

theorem decimate_alignment:
  assumes "cd \<noteq> []" and "sara \<noteq> 0" and "mp \<noteq> 0" and "mp < int (num_points_of cd)"
  shows "\<exists>skip ts. 1 \<le> skip \<and> skip = nat (max 1 (int (num_points_of cd) div mp))
     \<and> build_time_axis (num_points_of cd) sara = Inr ts
     \<and> export_data sara (Some mp) cd =
         Inr (py_stride skip ts, map (\<lambda>(ch, v). (ch, py_stride skip v)) cd)
     \<and> length (py_stride skip ts) = (length ts + skip - 1) div skip
     \<and> (\<forall>j < length (py_stride skip ts). py_stride skip ts ! j = ts ! (j * skip))
     \<and> (\<forall>(ch, v) \<in> set cd.
           length (py_stride skip v) = (length v + skip - 1) div skip
         \<and> (\<forall>j < length (py_stride skip v). py_stride skip v ! j = v ! (j * skip))
         \<and> length (py_stride skip v) \<le> length (py_stride skip ts)
         \<and> (length v = length ts \<longrightarrow>
               length (py_stride skip v) = length (py_stride skip ts)))"
proof -
  let ?n = "num_points_of cd"
  let ?skip = "nat (max 1 (int ?n div mp))"
  let ?ts = "map (\<lambda>i. (real i - real ?n / 2) / sara) [0..<?n]"
  have pos: "0 < ?skip" by simp
  have ts: "build_time_axis ?n sara = Inr ?ts" using assms(2) by (rule build_time_axis_ok)
  have len: "length ?ts = ?n" by simp
  have ex: "export_data sara (Some mp) cd =
         Inr (py_stride ?skip ?ts, map (\<lambda>(ch, v). (ch, py_stride ?skip v)) cd)"
    using assms ts by (rule export_data_reduces)
  have axis: "\<forall>j < length (py_stride ?skip ?ts). py_stride ?skip ?ts ! j = ?ts ! (j * ?skip)"
    using nth_py_stride [OF pos] by blast
  have chans: "\<forall>(ch, v) \<in> set cd.
           length (py_stride ?skip v) = (length v + ?skip - 1) div ?skip
         \<and> (\<forall>j < length (py_stride ?skip v). py_stride ?skip v ! j = v ! (j * ?skip))
         \<and> length (py_stride ?skip v) \<le> length (py_stride ?skip ?ts)
         \<and> (length v = length ?ts \<longrightarrow>
               length (py_stride ?skip v) = length (py_stride ?skip ?ts))"
  proof (intro ballI, clarify)
    fix ch v assume "(ch, v) \<in> set cd"
    then have "length v \<le> length ?ts" using length_le_num_points_of [of ch v cd] len by simp
    then have le: "length (py_stride ?skip v) \<le> length (py_stride ?skip ?ts)"
      using pos by (rule stride_length_mono [rotated])
    have eq: "length v = length ?ts \<longrightarrow>
               length (py_stride ?skip v) = length (py_stride ?skip ?ts)"
    proof
      assume "length v = length ?ts"
      then show "length (py_stride ?skip v) = length (py_stride ?skip ?ts)"
        by (simp only: length_py_stride [OF pos])
    qed
    have "length (py_stride ?skip v) = (length v + ?skip - 1) div ?skip"
      using pos by (rule length_py_stride)
    moreover have "\<forall>j < length (py_stride ?skip v). py_stride ?skip v ! j = v ! (j * ?skip)"
      using nth_py_stride [OF pos] by blast
    ultimately show "length (py_stride ?skip v) = (length v + ?skip - 1) div ?skip
         \<and> (\<forall>j < length (py_stride ?skip v). py_stride ?skip v ! j = v ! (j * ?skip))
         \<and> length (py_stride ?skip v) \<le> length (py_stride ?skip ?ts)
         \<and> (length v = length ?ts \<longrightarrow>
               length (py_stride ?skip v) = length (py_stride ?skip ?ts))"
      using le eq by blast
  qed
  have "1 \<le> ?skip" using pos by simp
  moreover have "length (py_stride ?skip ?ts) = (length ?ts + ?skip - 1) div ?skip"
    using pos by (rule length_py_stride)
  ultimately show ?thesis using ts ex axis chans by blast
qed

theorem decimate_alignment_witness:
  "export_data 1 (Some 2) [(1, [1, 2, 3, 4, 5]), (2, [6, 7, 8, 9, 10])] =
     Inr ([- 5 / 2, - 1 / 2, 3 / 2], [(1, [1, 3, 5]), (2, [6, 8, 10])])"
proof -
  let ?cd = "[(1, [1, 2, 3, 4, 5]), (2, [6, 7, 8, 9, 10])] :: channel_data"
  have n: "num_points_of ?cd = 5" by (simp add: num_points_of_def)
  have h: "?cd \<noteq> []" "(1::real) \<noteq> 0" "(2::int) \<noteq> 0" "2 < int (num_points_of ?cd)"
    by (simp_all add: n)
  from decimate_alignment [OF h] obtain skip ts where
    s: "skip = nat (max 1 (int (num_points_of ?cd) div 2))"
    and t: "build_time_axis (num_points_of ?cd) 1 = Inr ts"
    and e: "export_data 1 (Some 2) ?cd =
         Inr (py_stride skip ts, map (\<lambda>(ch, v). (ch, py_stride skip v)) ?cd)" by blast
  have "skip = 2" using s by (simp add: n)
  moreover have "ts = [- 5 / 2, - 3 / 2, - 1 / 2, 1 / 2, 3 / 2]"
    using t by (simp add: n build_time_axis_def upt_conv_Cons)
  ultimately show ?thesis using e by simp
qed

text \<open>
  Claim C4 says that after the decimation the time axis and every channel hold at most
  \<open>M\<close> points. The step is the floor of \<open>N / M\<close>, so the slice keeps the ceiling of
  \<open>N / skip\<close> points, which is more than \<open>M\<close> unless \<open>M\<close> divides \<open>N\<close>. The theorem
  evaluates the code on four inputs: 3 points with a maximum of 2 are all kept, as
  are 199 points with a maximum of 100; 1001 points with a maximum of 100 become
  101 points, and 14000 points with a maximum of 5000 become 7000 points.
\<close>

theorem decimate_exceeds_maxpoints:
  "export_data 1 (Some 2) [(1, [1, 2, 3])] = Inr ([- 3 / 2, - 1 / 2, 1 / 2], [(1, [1, 2, 3])])
   \<and> length (fst (decimate (Some 100) 199 (map real [0..<199]) [])) = 199
   \<and> length (fst (decimate (Some 100) 1001 (map real [0..<1001]) [])) = 101
   \<and> length (fst (decimate (Some 5000) 14000 (map real [0..<14000]) [])) = 7000"
proof -
  have "export_data 1 (Some 2) [(1, [1, 2, 3])] = Inr ([- 3 / 2, - 1 / 2, 1 / 2], [(1, [1, 2, 3])])"
    by (simp add: export_data_def build_time_axis_def decimate_def num_points_of_def upt_conv_Cons)
  moreover have "length (fst (decimate (Some 100) 199 (map real [0..<199]) [])) = 199"
    by (simp add: decimate_reduces length_py_stride)
  moreover have "length (fst (decimate (Some 100) 1001 (map real [0..<1001]) [])) = 101"
    by (simp add: decimate_reduces length_py_stride)
  moreover have "length (fst (decimate (Some 5000) 14000 (map real [0..<14000]) [])) = 7000"
    by (simp add: decimate_reduces length_py_stride)
  ultimately show ?thesis by blast
qed
section \<open>Properties of the value parser\<close>

lemma endswith_rev: "endswith s u \<longleftrightarrow> take (length u) (rev s) = rev u"
proof -
  have "take (length u) (rev s) = rev (drop (length s - length u) s)"
    by (simp add: take_rev)
  then have r: "take (length u) (rev s) = rev u \<longleftrightarrow> drop (length s - length u) s = u"
    by simp
  have "drop (length s - length u) s = u \<Longrightarrow> length u \<le> length s"
  proof -
    assume "drop (length s - length u) s = u"
    then have "length u = length (drop (length s - length u) s)" by simp
    then show ?thesis by simp
  qed
  then show ?thesis unfolding r endswith_def by blast
qed

lemma strip_unit_none:
  assumes "\<not> unit_tail c"
  shows "strip_unit unit_suffixes (b @ [c]) = b @ [c]"
  using assms by (simp add: unit_suffixes_def endswith_rev unit_tail_def)

lemma strip_unit_known:
  assumes "u \<in> set unit_suffixes" and "c \<noteq> CHR ''/''" and "c \<noteq> CHR ''t''"
  shows "strip_unit unit_suffixes (b @ c # u) = b @ [c]"
proof -
  from assms(1) consider "u = ''Sa/s''" | "u = ''sa/s''" | "u = ''pts''" | "u = ''Pts''"
    | "u = ''Hz''" | "u = ''hz''" | "u = ''V''" | "u = ''v''" | "u = ''s''" | "u = ''S''"
    by (auto simp: unit_suffixes_def)
  then show ?thesis
    using assms(2,3) by cases (simp_all add: unit_suffixes_def endswith_rev)
qed

lemma si_prefix_cases:
  "map_of si_prefixes c = Some m \<Longrightarrow>
   c = CHR ''G'' \<or> c = CHR ''M'' \<or> c = CHR ''k'' \<or> c = CHR ''m'' \<or> c = CHR ''u''
   \<or> c = CHR ''n'' \<or> c = CHR ''p''"
  by (simp add: si_prefixes_def split: if_splits)

lemma prefix_no_unit_tail:
  assumes "map_of si_prefixes c = Some m"
  shows "\<not> unit_tail c \<and> c \<noteq> CHR ''/'' \<and> c \<noteq> CHR ''t''"
  using si_prefix_cases [OF assms] by (elim disjE) (simp_all add: unit_tail_def)

lemma prefix_no_space:
  assumes "map_of si_prefixes c = Some m"
  shows "\<not> is_space_str c"
  using si_prefix_cases [OF assms] by (elim disjE) (simp_all add: is_space_str_def)

lemma digit_cases:
  "is_digit c \<Longrightarrow> 48 \<le> (of_char c :: nat) \<and> (of_char c :: nat) \<le> 57"
  by (simp add: is_digit_def)

lemma digit_no_prefix:
  assumes "is_digit c"
  shows "map_of si_prefixes c = None"
proof (cases "map_of si_prefixes c")
  case None
  then show ?thesis .
next
  case (Some m)
  from si_prefix_cases [OF this] digit_cases [OF assms] show ?thesis
    by (elim disjE) simp_all
qed

lemma digit_no_unit_tail:
  assumes "is_digit c"
  shows "\<not> unit_tail c \<and> c \<noteq> CHR ''/'' \<and> c \<noteq> CHR ''t''"
proof -
  have "unit_tail c \<or> c = CHR ''/'' \<or> c = CHR ''t'' \<Longrightarrow> False"
    using digit_cases [OF assms] unfolding unit_tail_def by (elim disjE) simp_all
  then show ?thesis by blast
qed

lemma digit_no_space_str:
  assumes "is_digit c"
  shows "\<not> is_space_str c"
proof
  assume "is_space_str c"
  then show False
    using digit_cases [OF assms] unfolding is_space_str_def by (elim disjE) simp_all
qed

lemma unit_no_space:
  assumes "u \<in> set unit_suffixes"
  shows "list_all (\<lambda>c. \<not> is_space_str c) u"
proof -
  from assms consider "u = ''Sa/s''" | "u = ''sa/s''" | "u = ''pts''" | "u = ''Pts''"
    | "u = ''Hz''" | "u = ''hz''" | "u = ''V''" | "u = ''v''" | "u = ''s''" | "u = ''S''"
    by (auto simp: unit_suffixes_def)
  then show ?thesis by cases (simp_all add: is_space_str_def)
qed

lemma split_acc_token:
  "list_all (\<lambda>c. \<not> is_space_str c) tok \<Longrightarrow>
   split_acc cur tok = (if cur @ tok = [] then [] else [cur @ tok])"
  by (induction tok arbitrary: cur) simp_all

lemma split_acc_last:
  assumes "tok \<noteq> []" and "list_all (\<lambda>c. \<not> is_space_str c) tok"
    and "pre = [] \<longrightarrow> cur = []" and "pre \<noteq> [] \<longrightarrow> is_space_str (last pre)"
  shows "split_acc cur (pre @ tok) \<noteq> [] \<and> last (split_acc cur (pre @ tok)) = tok"
  using assms(3,4)
proof (induction pre arbitrary: cur)
  case Nil
  then show ?case using assms(1,2) by (simp add: split_acc_token)
next
  case (Cons c cs)
  show ?case
  proof (cases "cs = []")
    case True
    with Cons.prems have "is_space_str c" by simp
    then show ?thesis using True assms(1,2) by (simp add: split_acc_token)
  next
    case False
    with Cons.prems have sp: "is_space_str (last cs)" by simp
    have ih: "split_acc cur' (cs @ tok) \<noteq> [] \<and> last (split_acc cur' (cs @ tok)) = tok" for cur'
      using Cons.IH [of cur'] False sp by simp
    show ?thesis using ih [of "[]"] ih [of "cur @ [c]"] by simp
  qed
qed

lemma split_acc_lstrip: "split_acc [] (dropWhile is_space_str s) = split_acc [] s"
  by (induction s) simp_all

lemma last_dropWhile_keep:
  "xs \<noteq> [] \<Longrightarrow> \<not> P (last xs) \<Longrightarrow> dropWhile P xs \<noteq> [] \<and> last (dropWhile P xs) = last xs"
  by (induction xs) (auto split: if_splits)

lemma py_strip_token:
  assumes "tok \<noteq> []" and "\<not> is_space_str (last tok)" and "list_all is_space_str post"
  shows "py_strip (pre @ tok @ post) = dropWhile is_space_str (pre @ tok)"
proof -
  let ?l = "dropWhile is_space_str (pre @ tok)"
  have "last tok \<in> set (pre @ tok)" using assms(1) by simp
  with assms(2) have a: "dropWhile is_space_str ((pre @ tok) @ post) = ?l @ post"
    by (intro dropWhile_append1)
  have l: "?l \<noteq> [] \<and> last ?l = last tok"
    using last_dropWhile_keep [of "pre @ tok" is_space_str] assms(1,2) by simp
  have "dropWhile is_space_str (rev (?l @ post)) = dropWhile is_space_str (rev ?l)"
  proof -
    have "\<And>x. x \<in> set (rev post) \<Longrightarrow> is_space_str x"
      using assms(3) by (simp add: list_all_iff)
    then have "dropWhile is_space_str (rev post @ rev ?l) = dropWhile is_space_str (rev ?l)"
      by (rule dropWhile_append2)
    then show ?thesis by simp
  qed
  also have "\<dots> = rev ?l"
  proof -
    from l obtain ys where "?l = ys @ [last tok]"
      by (metis append_butlast_last_id)
    then have "rev ?l = last tok # rev ys" by simp
    then show ?thesis using assms(2) by simp
  qed
  finally show ?thesis using a by (simp add: py_strip_def)
qed

lemma last_token:
  assumes "tok \<noteq> []" and "list_all (\<lambda>c. \<not> is_space_str c) tok" and "list_all is_space_str post"
    and "pre \<noteq> [] \<longrightarrow> is_space_str (last pre)"
  shows "py_split (py_strip (pre @ tok @ post)) \<noteq> []
       \<and> last (py_split (py_strip (pre @ tok @ post))) = tok"
proof -
  have "\<not> is_space_str (last tok)" using assms(1,2) by (simp add: list_all_iff)
  then have "py_strip (pre @ tok @ post) = dropWhile is_space_str (pre @ tok)"
    using assms(1,3) by (simp add: py_strip_token)
  then have "py_split (py_strip (pre @ tok @ post)) = split_acc [] (pre @ tok)"
    by (simp add: py_split_def split_acc_lstrip)
  then show ?thesis using split_acc_last [OF assms(1,2), of pre "[]"] assms(4) by simp
qed

lemma strip_unit_longest:
  assumes "sorted_wrt (\<lambda>a b. length b \<le> length a) us"
  shows "(\<exists>u'\<in>set us. endswith s u' \<and> strip_unit us s = take (length s - length u') s
            \<and> (\<forall>u\<in>set us. endswith s u \<longrightarrow> length u \<le> length u'))
         \<or> ((\<forall>u\<in>set us. \<not> endswith s u) \<and> strip_unit us s = s)"
  using assms
proof (induction us)
  case Nil
  then show ?case by simp
next
  case (Cons a us)
  show ?case
  proof (cases "endswith s a")
    case True
    have "\<forall>u\<in>set (a # us). endswith s u \<longrightarrow> length u \<le> length a"
      using Cons.prems by auto
    then show ?thesis using True by auto
  next
    case False
    from Cons.prems have "sorted_wrt (\<lambda>a b. length b \<le> length a) us" by simp
    from Cons.IH [OF this] show ?thesis using False by auto
  qed
qed

lemma unit_suffixes_sorted: "sorted_wrt (\<lambda>a b. length b \<le> length a) unit_suffixes"
  by (simp add: unit_suffixes_def)

lemma parse_value_token:
  assumes tok: "py_split (py_strip response) \<noteq> []" "last (py_split (py_strip response)) = body @ u"
    and unit: "strip_unit unit_suffixes (body @ u) = body"
    and pre: "body = num @ p" "num \<noteq> []" "is_digit (last num)"
      "p = [] \<and> mult = 1 \<or> (\<exists>c. p = [c] \<and> map_of si_prefixes c = Some mult)"
    and num: "py_float num = Some x"
  shows "parse_value response = Inr (float_times x mult)"
proof -
  have vs: "(if py_split (py_strip response) \<noteq> [] then last (py_split (py_strip response))
             else py_strip response) = body @ u"
    using tok by simp
  have sel: "(if body \<noteq> [] then
               (case map_of si_prefixes (last body) of
                  Some m \<Rightarrow> (m, butlast body)
                | None \<Rightarrow> (1, body))
             else (1, body)) = (mult, num)"
    using pre digit_no_prefix [OF pre(3)] by auto
  show ?thesis
    unfolding parse_value_def Let_def vs unit sel using num by simp
qed

lemma parse_value_known:
  assumes pre: "pre \<noteq> [] \<longrightarrow> is_space_str (last pre)" and post: "list_all is_space_str post"
    and num: "num \<noteq> []" "list_all (\<lambda>c. \<not> is_space_str c) num" "is_digit (last num)"
    and val: "py_float num = Some (Finite x)"
    and pm: "p = [] \<and> mult = 1 \<or> (\<exists>c. p = [c] \<and> map_of si_prefixes c = Some mult)"
    and un: "u = [] \<or> u \<in> set unit_suffixes"
  shows "parse_value (pre @ (num @ p @ u) @ post) = Inr (Finite (x * mult))"
proof -
  let ?body = "num @ p"
  let ?tok = "?body @ u"
  have nosp_p: "list_all (\<lambda>c. \<not> is_space_str c) p"
    using pm prefix_no_space by auto
  have nosp_u: "list_all (\<lambda>c. \<not> is_space_str c) u"
    using un unit_no_space by auto
  have nosp: "list_all (\<lambda>c. \<not> is_space_str c) ?tok"
    using num(2) nosp_p nosp_u by simp
  have ne: "?tok \<noteq> []" using num(1) by simp
  have tok: "py_split (py_strip (pre @ ?tok @ post)) \<noteq> []
       \<and> last (py_split (py_strip (pre @ ?tok @ post))) = ?tok"
    using ne nosp post pre by (rule last_token)
  obtain b c where body: "?body = b @ [c]" and c: "\<not> unit_tail c \<and> c \<noteq> CHR ''/'' \<and> c \<noteq> CHR ''t''"
  proof (cases "p = []")
    case True
    then have "?body = butlast num @ [last num]" using num(1) by simp
    moreover have "\<not> unit_tail (last num) \<and> last num \<noteq> CHR ''/'' \<and> last num \<noteq> CHR ''t''"
      using num(3) by (rule digit_no_unit_tail)
    ultimately show ?thesis using that by blast
  next
    case False
    then obtain d where d: "p = [d]" "map_of si_prefixes d = Some mult" using pm by blast
    then have "?body = num @ [d]" by simp
    moreover have "\<not> unit_tail d \<and> d \<noteq> CHR ''/'' \<and> d \<noteq> CHR ''t''"
      using d(2) by (rule prefix_no_unit_tail)
    ultimately show ?thesis using that by blast
  qed
  have unit: "strip_unit unit_suffixes (?body @ u) = ?body"
  proof (cases "u = []")
    case True
    then show ?thesis using body c strip_unit_none [of c b] by simp
  next
    case False
    then have "u \<in> set unit_suffixes" using un by blast
    then show ?thesis using body c strip_unit_known [of u c b] by simp
  qed
  have "parse_value (pre @ ?tok @ post) = Inr (float_times (Finite x) mult)"
    using tok [THEN conjunct1] tok [THEN conjunct2] unit refl num(1) num(3) pm val
    by (rule parse_value_token)
  then show ?thesis by simp
qed

text \<open>
  The multiplier that belongs to a prefix letter, and the known units, written out; they
  are compared below with the tables of the source.
\<close>

lemma si_table_lookup:
  assumes "p = [] \<and> mult = 1
      \<or> p = ''G'' \<and> mult = 1000000000 \<or> p = ''M'' \<and> mult = 1000000
      \<or> p = ''k'' \<and> mult = 1000 \<or> p = ''m'' \<and> mult = 1 / 1000
      \<or> p = ''u'' \<and> mult = 1 / 1000000 \<or> p = ''n'' \<and> mult = 1 / 1000000000
      \<or> p = ''p'' \<and> mult = 1 / 1000000000000"
  shows "p = [] \<and> mult = 1 \<or> (\<exists>c. p = [c] \<and> map_of si_prefixes c = Some (mult :: real))"
  using assms by (elim disjE) (simp_all add: si_prefixes_def)

lemma unit_table_lookup:
  assumes "u = [] \<or> u = ''Sa/s'' \<or> u = ''sa/s'' \<or> u = ''pts'' \<or> u = ''Pts''
      \<or> u = ''Hz'' \<or> u = ''hz'' \<or> u = ''V'' \<or> u = ''v'' \<or> u = ''s'' \<or> u = ''S''"
  shows "u = [] \<or> u \<in> set unit_suffixes"
  using assms by (elim disjE) (simp_all add: unit_suffixes_def)

text \<open>\<^verbatim>\<open>float\<close> on an optional sign followed by decimal digits.\<close>

lemma takeWhile_all: "list_all P xs \<Longrightarrow> takeWhile P xs = xs \<and> dropWhile P xs = []"
  by (induction xs) simp_all

lemma parse_decimal_digits:
  assumes "ds \<noteq> []" and "list_all is_digit ds"
  shows "parse_decimal ds = Some (real (dec_value ds))"
proof -
  have tw: "takeWhile is_digit ds = ds" and dw: "dropWhile is_digit ds = []"
    using takeWhile_all [OF assms(2)] by blast+
  show ?thesis
    unfolding parse_decimal_def Let_def tw dw
    using assms(1) by (simp add: parse_exponent_def dec_value_def)
qed

lemma digit_plain:
  assumes "is_digit c"
  shows "\<not> is_space_float c \<and> c \<noteq> CHR ''_'' \<and> c \<noteq> CHR ''+'' \<and> c \<noteq> CHR ''-''
       \<and> to_lower c \<noteq> CHR ''i'' \<and> to_lower c \<noteq> CHR ''n''"
proof -
  have low: "to_lower c = c" using digit_cases [OF assms] by (simp add: to_lower_def)
  have "is_space_float c \<or> c = CHR ''_'' \<or> c = CHR ''+'' \<or> c = CHR ''-''
       \<or> c = CHR ''i'' \<or> c = CHR ''n'' \<Longrightarrow> False"
    using digit_cases [OF assms] unfolding is_space_float_def by (elim disjE) simp_all
  then show ?thesis using low by auto
qed

lemma underscores_ok_plain:
  "list_all (\<lambda>c. c \<noteq> CHR ''_'') s \<Longrightarrow> underscores_ok prev s"
  by (induction s arbitrary: prev) simp_all

lemma filter_plain:
  "list_all (\<lambda>c. c \<noteq> CHR ''_'') s \<Longrightarrow> filter (\<lambda>c. c \<noteq> CHR ''_'') s = s"
  by (induction s) simp_all

lemma py_float_plain:
  assumes "t \<noteq> []" and plain: "list_all (\<lambda>c. c \<noteq> CHR ''_'') t"
    and "\<not> is_space_float (hd t)" and "\<not> is_space_float (last t)"
  shows "py_float t =
     (let (neg, body) = (case t of
                           [] \<Rightarrow> (False, t)
                         | c # r \<Rightarrow> if c = CHR ''+'' then (False, r)
                                    else if c = CHR ''-'' then (True, r) else (False, t));
          word = map to_lower body
      in if word = ''inf'' \<or> word = ''infinity'' then Some (Infinity neg)
         else if word = ''nan'' then Some NaN
         else (case parse_decimal body of
                 None \<Rightarrow> None
               | Some x \<Rightarrow> Some (Finite (if neg then - x else x))))"
proof -
  have l: "dropWhile is_space_float t = t"
    using assms(1,3) by (cases t) simp_all
  have "t = butlast t @ [last t]" using assms(1) by simp
  then have e: "rev t = last t # rev (butlast t)" by (metis rev.simps(2) rev_rev_ident rev_swap)
  have "dropWhile is_space_float (last t # rev (butlast t)) = last t # rev (butlast t)"
    using assms(4) by simp
  then have r: "dropWhile is_space_float (rev t) = rev t"
    unfolding e .
  have strip: "rev (dropWhile is_space_float (rev (dropWhile is_space_float t))) = t"
    by (simp only: l r rev_rev_ident)
  have ok: "underscores_ok CHR '' '' t" using plain by (rule underscores_ok_plain)
  show ?thesis
    unfolding py_float_def Let_def strip filter_plain [OF plain] using ok by simp
qed

lemma digits_word:
  assumes "ds \<noteq> []" and "list_all is_digit ds"
  shows "map to_lower ds \<noteq> ''inf'' \<and> map to_lower ds \<noteq> ''infinity''
       \<and> map to_lower ds \<noteq> ''nan''"
proof -
  from assms obtain d ds' where dd: "ds = d # ds'" and d: "is_digit d" by (cases ds) auto
  have "to_lower d \<noteq> CHR ''i'' \<and> to_lower d \<noteq> CHR ''n''"
    using digit_plain [OF d] by blast
  then show ?thesis by (simp add: dd)
qed

lemma digits_plain:
  assumes "list_all is_digit ds"
  shows "list_all (\<lambda>c. c \<noteq> CHR ''_'') ds"
  unfolding list_all_iff
proof
  fix c assume "c \<in> set ds"
  then have "is_digit c" using assms by (simp add: list_all_iff)
  from digit_plain [OF this] show "c \<noteq> CHR ''_''" by blast
qed

lemma py_float_signed_digits:
  assumes ds: "ds \<noteq> []" "list_all is_digit ds"
    and sg: "sg = [] \<and> sv = 1 \<or> sg = ''+'' \<and> sv = 1 \<or> sg = ''-'' \<and> sv = - 1"
  shows "py_float (sg @ ds) = Some (Finite (sv * real (dec_value ds)))"
proof -
  from ds obtain d ds' where dd: "ds = d # ds'" and d: "is_digit d" by (cases ds) auto
  note dp = digit_plain [OF d]
  have lastd: "is_digit (last ds)" using ds by (simp add: list_all_iff)
  have lp: "\<not> is_space_float (last ds)" using digit_plain [OF lastd] by blast
  note w = digits_word [OF ds]
  note pd = parse_decimal_digits [OF ds]
  note pl = digits_plain [OF ds(2)]
  from sg consider (none) "sg = []" "sv = 1" | (plus) "sg = ''+''" "sv = 1"
    | (minus) "sg = ''-''" "sv = - 1" by blast
  then show ?thesis
  proof cases
    case none
    have c: "\<not> is_space_float (hd ds)" using dp by (simp add: dd)
    have "py_float ds = Some (Finite (real (dec_value ds)))"
      unfolding py_float_plain [OF ds(1) pl c lp]
      using w pd dp by (simp add: dd)
    then show ?thesis using none by simp
  next
    case plus
    have a: "CHR ''+'' # ds \<noteq> []" and b: "list_all (\<lambda>c. c \<noteq> CHR ''_'') (CHR ''+'' # ds)"
      and c: "\<not> is_space_float (hd (CHR ''+'' # ds))" and e: "\<not> is_space_float (last (CHR ''+'' # ds))"
      using pl lp ds(1) by (simp_all add: is_space_float_def)
    have "py_float (CHR ''+'' # ds) = Some (Finite (real (dec_value ds)))"
      unfolding py_float_plain [OF a b c e] using w pd by simp
    then show ?thesis using plus by simp
  next
    case minus
    have a: "CHR ''-'' # ds \<noteq> []" and b: "list_all (\<lambda>c. c \<noteq> CHR ''_'') (CHR ''-'' # ds)"
      and c: "\<not> is_space_float (hd (CHR ''-'' # ds))" and e: "\<not> is_space_float (last (CHR ''-'' # ds))"
      using pl lp ds(1) by (simp_all add: is_space_float_def)
    have "py_float (CHR ''-'' # ds) = Some (Finite (- real (dec_value ds)))"
      unfolding py_float_plain [OF a b c e] using w pd by simp
    then show ?thesis using minus by simp
  qed
qed

lemma parse_value_numeral:
  assumes "pre \<noteq> [] \<longrightarrow> is_space_str (last pre)" and "list_all is_space_str post"
    and "num \<noteq> []" and "list_all (\<lambda>c. \<not> is_space_str c) num" and "is_digit (last num)"
    and "py_float num = Some (Finite x)"
    and pm: "p = [] \<and> mult = 1
          \<or> p = ''G'' \<and> mult = 1000000000 \<or> p = ''M'' \<and> mult = 1000000
          \<or> p = ''k'' \<and> mult = 1000 \<or> p = ''m'' \<and> mult = 1 / 1000
          \<or> p = ''u'' \<and> mult = 1 / 1000000 \<or> p = ''n'' \<and> mult = 1 / 1000000000
          \<or> p = ''p'' \<and> mult = 1 / 1000000000000"
    and un: "u = [] \<or> u = ''Sa/s'' \<or> u = ''sa/s'' \<or> u = ''pts'' \<or> u = ''Pts''
          \<or> u = ''Hz'' \<or> u = ''hz'' \<or> u = ''V'' \<or> u = ''v'' \<or> u = ''s'' \<or> u = ''S''"
  shows "parse_value (pre @ (num @ p @ u) @ post) = Inr (Finite (x * mult))"
  using assms(1-6) si_table_lookup [OF pm] unit_table_lookup [OF un]
  by (rule parse_value_known)

lemma parse_value_signed_digits:
  assumes pre: "pre \<noteq> [] \<longrightarrow> is_space_str (last pre)" and post: "list_all is_space_str post"
    and ds: "ds \<noteq> []" "list_all is_digit ds"
    and sg: "sg = [] \<and> sv = 1 \<or> sg = ''+'' \<and> sv = 1 \<or> sg = ''-'' \<and> sv = - 1"
    and pm: "p = [] \<and> mult = 1
          \<or> p = ''G'' \<and> mult = 1000000000 \<or> p = ''M'' \<and> mult = 1000000
          \<or> p = ''k'' \<and> mult = 1000 \<or> p = ''m'' \<and> mult = 1 / 1000
          \<or> p = ''u'' \<and> mult = 1 / 1000000 \<or> p = ''n'' \<and> mult = 1 / 1000000000
          \<or> p = ''p'' \<and> mult = 1 / 1000000000000"
    and un: "u = [] \<or> u = ''Sa/s'' \<or> u = ''sa/s'' \<or> u = ''pts'' \<or> u = ''Pts''
          \<or> u = ''Hz'' \<or> u = ''hz'' \<or> u = ''V'' \<or> u = ''v'' \<or> u = ''s'' \<or> u = ''S''"
  shows "parse_value (pre @ ((sg @ ds) @ p @ u) @ post)
            = Inr (Finite (sv * real (dec_value ds) * mult))"
proof -
  have f: "py_float (sg @ ds) = Some (Finite (sv * real (dec_value ds)))"
    using ds sg by (rule py_float_signed_digits)
  have dsp: "list_all (\<lambda>c. \<not> is_space_str c) ds"
    using ds(2) digit_no_space_str by (auto simp: list_all_iff)
  have sgp: "list_all (\<lambda>c. \<not> is_space_str c) sg"
    using sg by (elim disjE) (simp_all add: is_space_str_def)
  have n1: "sg @ ds \<noteq> []" using ds(1) by simp
  have n2: "list_all (\<lambda>c. \<not> is_space_str c) (sg @ ds)" using dsp sgp by simp
  have n3: "is_digit (last (sg @ ds))" using ds by (simp add: list_all_iff)
  show ?thesis
    using pre post n1 n2 n3 f si_table_lookup [OF pm] unit_table_lookup [OF un]
    by (rule parse_value_known)
qed

text \<open>
  Claim C5. The value parser returns the value of the last whitespace-separated token
  of the response with the unit suffix cut off, the longest known suffix first, and the
  SI prefix applied. The first part of the theorem says so for every response that
  ends, up to whitespace, in a token made of a decimal numeral ending in a digit, an
  optional SI prefix letter and an optional known unit: the result is the value of the
  numeral times the multiplier of the prefix, which is \<open>10\<^sup>9\<close> for G, \<open>10\<^sup>6\<close> for M,
  \<open>10\<^sup>3\<close> for k, \<open>10\<^sup>-\<^sup>3\<close> for m, \<open>10\<^sup>-\<^sup>6\<close> for u, \<open>10\<^sup>-\<^sup>9\<close> for n,
  \<open>10\<^sup>-\<^sup>1\<^sup>2\<close> for p, and 1 without a prefix. The second part is the same statement for
  the numerals made of an optional sign and decimal digits, with their value written
  out. The third part says that the suffix cut off from any string is a known unit
  that ends the string and is at least as long as every known unit that ends it. The
  last part gives examples: the four of the source's docstring (\<open>C1:VDIV 2.00E-01V\<close>
  yields 0.2, \<open>TDIV 1.00E-03s\<close> yields 0.001, and both \<open>SARA 5.00E+08Sa/s\<close> and
  \<open>SARA 500MSa/s\<close> yield 500000000), one for every prefix letter, and signed ones.
\<close>

theorem parse_value_units:
  "(\<forall>pre num p u post mult x.
      (pre \<noteq> [] \<longrightarrow> is_space_str (last pre)) \<and> list_all is_space_str post
      \<and> num \<noteq> [] \<and> list_all (\<lambda>c. \<not> is_space_str c) num \<and> is_digit (last num)
      \<and> py_float num = Some (Finite x)
      \<and> (p = [] \<and> mult = 1
          \<or> p = ''G'' \<and> mult = 1000000000 \<or> p = ''M'' \<and> mult = 1000000
          \<or> p = ''k'' \<and> mult = 1000 \<or> p = ''m'' \<and> mult = 1 / 1000
          \<or> p = ''u'' \<and> mult = 1 / 1000000 \<or> p = ''n'' \<and> mult = 1 / 1000000000
          \<or> p = ''p'' \<and> mult = 1 / 1000000000000)
      \<and> (u = [] \<or> u = ''Sa/s'' \<or> u = ''sa/s'' \<or> u = ''pts'' \<or> u = ''Pts''
          \<or> u = ''Hz'' \<or> u = ''hz'' \<or> u = ''V'' \<or> u = ''v'' \<or> u = ''s'' \<or> u = ''S'')
      \<longrightarrow> parse_value (pre @ (num @ p @ u) @ post) = Inr (Finite (x * mult)))
   \<and> (\<forall>pre sg sv ds p u post mult.
      (pre \<noteq> [] \<longrightarrow> is_space_str (last pre)) \<and> list_all is_space_str post
      \<and> ds \<noteq> [] \<and> list_all is_digit ds
      \<and> (sg = [] \<and> sv = 1 \<or> sg = ''+'' \<and> sv = 1 \<or> sg = ''-'' \<and> sv = - 1)
      \<and> (p = [] \<and> mult = 1
          \<or> p = ''G'' \<and> mult = 1000000000 \<or> p = ''M'' \<and> mult = 1000000
          \<or> p = ''k'' \<and> mult = 1000 \<or> p = ''m'' \<and> mult = 1 / 1000
          \<or> p = ''u'' \<and> mult = 1 / 1000000 \<or> p = ''n'' \<and> mult = 1 / 1000000000
          \<or> p = ''p'' \<and> mult = 1 / 1000000000000)
      \<and> (u = [] \<or> u = ''Sa/s'' \<or> u = ''sa/s'' \<or> u = ''pts'' \<or> u = ''Pts''
          \<or> u = ''Hz'' \<or> u = ''hz'' \<or> u = ''V'' \<or> u = ''v'' \<or> u = ''s'' \<or> u = ''S'')
      \<longrightarrow> parse_value (pre @ ((sg @ ds) @ p @ u) @ post)
            = Inr (Finite (sv * real (dec_value ds) * mult)))
   \<and> (\<forall>s. (\<exists>u'\<in>set unit_suffixes. endswith s u'
               \<and> strip_unit unit_suffixes s = take (length s - length u') s
               \<and> (\<forall>u\<in>set unit_suffixes. endswith s u \<longrightarrow> length u \<le> length u'))
          \<or> ((\<forall>u\<in>set unit_suffixes. \<not> endswith s u) \<and> strip_unit unit_suffixes s = s))
   \<and> unit_suffixes = [''Sa/s'', ''sa/s'', ''pts'', ''Pts'', ''Hz'', ''hz'', ''V'', ''v'', ''s'', ''S'']
   \<and> parse_value ''C1:VDIV 2.00E-01V'' = Inr (Finite (2 / 10))
   \<and> parse_value ''TDIV 1.00E-03s'' = Inr (Finite (1 / 1000))
   \<and> parse_value ''SARA 5.00E+08Sa/s'' = Inr (Finite 500000000)
   \<and> parse_value ''SARA 500MSa/s'' = Inr (Finite 500000000)
   \<and> parse_value ''SARA 1.00GSa/s'' = Inr (Finite 1000000000)
   \<and> parse_value ''FREQ 1kHz'' = Inr (Finite 1000)
   \<and> parse_value ''C1:VDIV 2mV'' = Inr (Finite (2 / 1000))
   \<and> parse_value ''TDIV 5.00us'' = Inr (Finite (5 / 1000000))
   \<and> parse_value ''TDIV 2.5ns'' = Inr (Finite (25 / 10000000000))
   \<and> parse_value ''TDIV 4ps'' = Inr (Finite (4 / 1000000000000))
   \<and> parse_value ''C1:OFST -1.50E+00V'' = Inr (Finite (- 3 / 2))
   \<and> parse_value ''C1:OFST -20mV'' = Inr (Finite (- 20 / 1000))
   \<and> parse_value ''C1:OFST +3V'' = Inr (Finite 3)
   \<and> parse_value ''SANU 70pts'' = Inr (Finite 70)"
proof (intro conjI)
  show "\<forall>pre num p u post mult x.
      (pre \<noteq> [] \<longrightarrow> is_space_str (last pre)) \<and> list_all is_space_str post
      \<and> num \<noteq> [] \<and> list_all (\<lambda>c. \<not> is_space_str c) num \<and> is_digit (last num)
      \<and> py_float num = Some (Finite x)
      \<and> (p = [] \<and> mult = 1
          \<or> p = ''G'' \<and> mult = 1000000000 \<or> p = ''M'' \<and> mult = 1000000
          \<or> p = ''k'' \<and> mult = 1000 \<or> p = ''m'' \<and> mult = 1 / 1000
          \<or> p = ''u'' \<and> mult = 1 / 1000000 \<or> p = ''n'' \<and> mult = 1 / 1000000000
          \<or> p = ''p'' \<and> mult = 1 / 1000000000000)
      \<and> (u = [] \<or> u = ''Sa/s'' \<or> u = ''sa/s'' \<or> u = ''pts'' \<or> u = ''Pts''
          \<or> u = ''Hz'' \<or> u = ''hz'' \<or> u = ''V'' \<or> u = ''v'' \<or> u = ''s'' \<or> u = ''S'')
      \<longrightarrow> parse_value (pre @ (num @ p @ u) @ post) = Inr (Finite (x * mult))"
    by (intro allI impI, elim conjE, rule parse_value_numeral; assumption)
next
  show "\<forall>pre sg sv ds p u post mult.
      (pre \<noteq> [] \<longrightarrow> is_space_str (last pre)) \<and> list_all is_space_str post
      \<and> ds \<noteq> [] \<and> list_all is_digit ds
      \<and> (sg = [] \<and> sv = 1 \<or> sg = ''+'' \<and> sv = 1 \<or> sg = ''-'' \<and> sv = - 1)
      \<and> (p = [] \<and> mult = 1
          \<or> p = ''G'' \<and> mult = 1000000000 \<or> p = ''M'' \<and> mult = 1000000
          \<or> p = ''k'' \<and> mult = 1000 \<or> p = ''m'' \<and> mult = 1 / 1000
          \<or> p = ''u'' \<and> mult = 1 / 1000000 \<or> p = ''n'' \<and> mult = 1 / 1000000000
          \<or> p = ''p'' \<and> mult = 1 / 1000000000000)
      \<and> (u = [] \<or> u = ''Sa/s'' \<or> u = ''sa/s'' \<or> u = ''pts'' \<or> u = ''Pts''
          \<or> u = ''Hz'' \<or> u = ''hz'' \<or> u = ''V'' \<or> u = ''v'' \<or> u = ''s'' \<or> u = ''S'')
      \<longrightarrow> parse_value (pre @ ((sg @ ds) @ p @ u) @ post)
            = Inr (Finite (sv * real (dec_value ds) * mult))"
    by (intro allI impI, elim conjE, rule parse_value_signed_digits; assumption)
next
  show "\<forall>s. (\<exists>u'\<in>set unit_suffixes. endswith s u'
               \<and> strip_unit unit_suffixes s = take (length s - length u') s
               \<and> (\<forall>u\<in>set unit_suffixes. endswith s u \<longrightarrow> length u \<le> length u'))
          \<or> ((\<forall>u\<in>set unit_suffixes. \<not> endswith s u) \<and> strip_unit unit_suffixes s = s)"
    using unit_suffixes_sorted by (intro allI strip_unit_longest)
next
  show "unit_suffixes = [''Sa/s'', ''sa/s'', ''pts'', ''Pts'', ''Hz'', ''hz'', ''V'', ''v'', ''s'', ''S'']"
    by (rule unit_suffixes_def)
next
  show "parse_value ''C1:VDIV 2.00E-01V'' = Inr (Finite (2 / 10))" by code_simp
next
  show "parse_value ''TDIV 1.00E-03s'' = Inr (Finite (1 / 1000))" by code_simp
next
  show "parse_value ''SARA 5.00E+08Sa/s'' = Inr (Finite 500000000)" by code_simp
next
  show "parse_value ''SARA 500MSa/s'' = Inr (Finite 500000000)" by code_simp
next
  show "parse_value ''SARA 1.00GSa/s'' = Inr (Finite 1000000000)" by code_simp
next
  show "parse_value ''FREQ 1kHz'' = Inr (Finite 1000)" by code_simp
next
  show "parse_value ''C1:VDIV 2mV'' = Inr (Finite (2 / 1000))" by code_simp
next
  show "parse_value ''TDIV 5.00us'' = Inr (Finite (5 / 1000000))" by code_simp
next
  show "parse_value ''TDIV 2.5ns'' = Inr (Finite (25 / 10000000000))" by code_simp
next
  show "parse_value ''TDIV 4ps'' = Inr (Finite (4 / 1000000000000))" by code_simp
next
  show "parse_value ''C1:OFST -1.50E+00V'' = Inr (Finite (- 3 / 2))" by code_simp
next
  show "parse_value ''C1:OFST -20mV'' = Inr (Finite (- 20 / 1000))" by code_simp
next
  show "parse_value ''C1:OFST +3V'' = Inr (Finite 3)" by code_simp
next
  show "parse_value ''SANU 70pts'' = Inr (Finite 70)" by code_simp
qed

theorem parse_value_units_witness:
  "py_float ''2.5'' = Some (Finite (5 / 2))
   \<and> parse_value (''C1:OFST 2.5mV'' @ [CHR 0x0A]) = Inr (Finite (5 / 2 * (1 / 1000)))
   \<and> parse_value (''TDIV -250us'' @ [CHR 0x0A]) = Inr (Finite (- 1 * 250 * (1 / 1000000)))"
proof -
  have f: "py_float ''2.5'' = Some (Finite (5 / 2))" by code_simp
  have h: "(''C1:OFST '' \<noteq> [] \<longrightarrow> is_space_str (last ''C1:OFST '')) \<and> list_all is_space_str [CHR 0x0A]
      \<and> ''2.5'' \<noteq> [] \<and> list_all (\<lambda>c. \<not> is_space_str c) ''2.5'' \<and> is_digit (last ''2.5'')
      \<and> py_float ''2.5'' = Some (Finite (5 / 2))
      \<and> (''m'' = [] \<and> (1 / 1000 :: real) = 1
          \<or> ''m'' = ''G'' \<and> (1 / 1000 :: real) = 1000000000 \<or> ''m'' = ''M'' \<and> (1 / 1000 :: real) = 1000000
          \<or> ''m'' = ''k'' \<and> (1 / 1000 :: real) = 1000 \<or> ''m'' = ''m'' \<and> (1 / 1000 :: real) = 1 / 1000
          \<or> ''m'' = ''u'' \<and> (1 / 1000 :: real) = 1 / 1000000 \<or> ''m'' = ''n'' \<and> (1 / 1000 :: real) = 1 / 1000000000
          \<or> ''m'' = ''p'' \<and> (1 / 1000 :: real) = 1 / 1000000000000)
      \<and> (''V'' = [] \<or> ''V'' = ''Sa/s'' \<or> ''V'' = ''sa/s'' \<or> ''V'' = ''pts'' \<or> ''V'' = ''Pts''
          \<or> ''V'' = ''Hz'' \<or> ''V'' = ''hz'' \<or> ''V'' = ''V'' \<or> ''V'' = ''v'' \<or> ''V'' = ''s'' \<or> ''V'' = ''S'')"
    using f by (simp add: is_space_str_def is_digit_def)
  have a: "parse_value (''C1:OFST '' @ (''2.5'' @ ''m'' @ ''V'') @ [CHR 0x0A])
          = Inr (Finite (5 / 2 * (1 / 1000)))"
    using parse_value_units [THEN conjunct1, rule_format, OF h] .
  have g: "(''TDIV '' \<noteq> [] \<longrightarrow> is_space_str (last ''TDIV '')) \<and> list_all is_space_str [CHR 0x0A]
      \<and> ''250'' \<noteq> [] \<and> list_all is_digit ''250''
      \<and> (''-'' = [] \<and> (- 1 :: real) = 1 \<or> ''-'' = ''+'' \<and> (- 1 :: real) = 1 \<or> ''-'' = ''-'' \<and> (- 1 :: real) = - 1)
      \<and> (''u'' = [] \<and> (1 / 1000000 :: real) = 1
          \<or> ''u'' = ''G'' \<and> (1 / 1000000 :: real) = 1000000000 \<or> ''u'' = ''M'' \<and> (1 / 1000000 :: real) = 1000000
          \<or> ''u'' = ''k'' \<and> (1 / 1000000 :: real) = 1000 \<or> ''u'' = ''m'' \<and> (1 / 1000000 :: real) = 1 / 1000
          \<or> ''u'' = ''u'' \<and> (1 / 1000000 :: real) = 1 / 1000000 \<or> ''u'' = ''n'' \<and> (1 / 1000000 :: real) = 1 / 1000000000
          \<or> ''u'' = ''p'' \<and> (1 / 1000000 :: real) = 1 / 1000000000000)
      \<and> (''s'' = [] \<or> ''s'' = ''Sa/s'' \<or> ''s'' = ''sa/s'' \<or> ''s'' = ''pts'' \<or> ''s'' = ''Pts''
          \<or> ''s'' = ''Hz'' \<or> ''s'' = ''hz'' \<or> ''s'' = ''V'' \<or> ''s'' = ''v'' \<or> ''s'' = ''s'' \<or> ''s'' = ''S'')"
    by (simp add: is_space_str_def is_digit_def)
  have b: "parse_value (''TDIV '' @ ((''-'' @ ''250'') @ ''u'' @ ''s'') @ [CHR 0x0A])
          = Inr (Finite (- 1 * real (dec_value ''250'') * (1 / 1000000)))"
    using parse_value_units [THEN conjunct2, THEN conjunct1, rule_format, OF g] .
  have d: "dec_value ''250'' = 250" by (simp add: dec_value_def digit_val_def)
  show ?thesis using f a b d by simp
qed
end
